theory Spec2Isabelle
  imports Main
begin

section \<open>poker.js: cards, the deck and the hand evaluator\<close>

text \<open>
  A card is the object \<^verbatim>\<open>{ rank: r, suit: s, value: RANK_VALUE[r] }\<close> built by
  \<^verbatim>\<open>Deck.reset\<close>. The rank and suit strings are the closed sets \<^verbatim>\<open>RANKS\<close> and
  \<^verbatim>\<open>SUITS\<close>; the numeric field \<^verbatim>\<open>value\<close> is kept as a field of its own
  (\<open>card_value\<close>), since the evaluator reads both it and \<^verbatim>\<open>RANK_VALUE[rank]\<close>.
\<close>

datatype suit = Spades | Hearts | Diamonds | Clubs

datatype rank = R2 | R3 | R4 | R5 | R6 | R7 | R8 | R9 | RT | RJ | RQ | RK | RA

definition SUITS :: "suit list" where
  "SUITS = [Spades, Hearts, Diamonds, Clubs]"

definition RANKS :: "rank list" where
  "RANKS = [R2, R3, R4, R5, R6, R7, R8, R9, RT, RJ, RQ, RK, RA]"

fun RANK_VALUE :: "rank \<Rightarrow> int" where
  "RANK_VALUE R2 = 2"
| "RANK_VALUE R3 = 3"
| "RANK_VALUE R4 = 4"
| "RANK_VALUE R5 = 5"
| "RANK_VALUE R6 = 6"
| "RANK_VALUE R7 = 7"
| "RANK_VALUE R8 = 8"
| "RANK_VALUE R9 = 9"
| "RANK_VALUE RT = 10"
| "RANK_VALUE RJ = 11"
| "RANK_VALUE RQ = 12"
| "RANK_VALUE RK = 13"
| "RANK_VALUE RA = 14"

text \<open>The rank as the one-character string the source uses as an object key.\<close>

fun rankString :: "rank \<Rightarrow> string" where
  "rankString R2 = ''2''"
| "rankString R3 = ''3''"
| "rankString R4 = ''4''"
| "rankString R5 = ''5''"
| "rankString R6 = ''6''"
| "rankString R7 = ''7''"
| "rankString R8 = ''8''"
| "rankString R9 = ''9''"
| "rankString RT = ''T''"
| "rankString RJ = ''J''"
| "rankString RQ = ''Q''"
| "rankString RK = ''K''"
| "rankString RA = ''A''"

record card =
  rank :: rank
  suit :: suit
  card_value :: int

text \<open>The object literal pushed by \<^verbatim>\<open>Deck.reset\<close>.\<close>

definition mkCard :: "rank \<Rightarrow> suit \<Rightarrow> card" where
  "mkCard r s = \<lparr>rank = r, suit = s, card_value = RANK_VALUE r\<rparr>"

text \<open>
  \<^verbatim>\<open>Deck.reset\<close> before the shuffle: suits outermost, ranks innermost. The shuffle
  draws from \<^verbatim>\<open>Math.random\<close>; the engine below takes the shuffled deck as an input.
\<close>

definition freshDeck :: "card list" where
  "freshDeck = concat (map (\<lambda>s. map (\<lambda>r. mkCard r s) RANKS) SUITS)"

text \<open>
  \<^verbatim>\<open>Deck.deal\<close> is \<^verbatim>\<open>this.cards.pop()\<close>: it removes and returns the last element, and
  on an empty array returns \<^verbatim>\<open>undefined\<close> and removes nothing. A dealt value is a
  \<open>card option\<close>, \<open>None\<close> standing for \<^verbatim>\<open>undefined\<close>.
\<close>

definition deal :: "card list \<Rightarrow> card option \<times> card list" where
  "deal cards = (if cards = [] then (None, []) else (Some (last cards), butlast cards))"

datatype error = TypeError

record hand_result =
  score :: int
  name :: string
  tieBreaker :: "int list option"

text \<open>
  The keys of a JavaScript object in the order \<^verbatim>\<open>for ... in\<close> and
  \<^verbatim>\<open>Object.keys\<close> enumerate them when no key is an array index: first insertion
  first.
\<close>

fun insertionOrder :: "'a list \<Rightarrow> 'a list" where
  "insertionOrder [] = []"
| "insertionOrder (x # xs) = x # filter (\<lambda>y. y \<noteq> x) (insertionOrder xs)"

text \<open>
  \<^verbatim>\<open>isFlush\<close>: the cards grouped by suit in the order given; the first suit (in
  insertion order) holding five or more cards gives its first five cards
  (\<^verbatim>\<open>slice(0, 5)\<close>), otherwise \<^verbatim>\<open>false\<close> (\<open>None\<close>).
\<close>

definition isFlush :: "card list \<Rightarrow> card list option" where
  "isFlush cards =
     (case find (\<lambda>s. 5 \<le> length (filter (\<lambda>c. suit c = s) cards))
             (insertionOrder (map suit cards)) of
        None \<Rightarrow> None
      | Some s \<Rightarrow> Some (take 5 (filter (\<lambda>c. suit c = s) cards)))"

text \<open>
  The loop of \<^verbatim>\<open>isStraight\<close> over the descending values: \<open>streak\<close> is the run
  built so far; the first run of length five returns its first element.
\<close>

fun straightLoop :: "int list \<Rightarrow> int list \<Rightarrow> int option" where
  "straightLoop streak [] = None"
| "straightLoop streak (v # vs) =
     (let streak' = (if streak = [] \<or> last streak = v + 1 then streak @ [v] else [v])
      in if length streak' = 5 then Some (hd streak') else straightLoop streak' vs)"

text \<open>
  \<^verbatim>\<open>isStraight\<close>: the distinct values (a \<^verbatim>\<open>Set\<close> keeps insertion order), a 1 pushed
  when a 14 is present, sorted descending, then the loop. \<open>None\<close> is \<^verbatim>\<open>false\<close>.
\<close>

definition isStraight :: "card list \<Rightarrow> int option" where
  "isStraight cards =
     (let uniqueValues = insertionOrder (map card_value cards);
          withLow = (if 14 \<in> set uniqueValues then uniqueValues @ [1] else uniqueValues)
      in straightLoop [] (rev (sort withLow)))"

text \<open>
  \<^verbatim>\<open>Object.keys(counts)\<close>: the keys that are array indices (the ranks \<^verbatim>\<open>'2'\<close> to
  \<^verbatim>\<open>'9'\<close>) come first in ascending numeric order, the other keys (\<^verbatim>\<open>'T'\<close>,
  \<^verbatim>\<open>'J'\<close>, \<^verbatim>\<open>'Q'\<close>, \<^verbatim>\<open>'K'\<close>, \<^verbatim>\<open>'A'\<close>) follow in insertion order.
\<close>

definition isIndexKey :: "rank \<Rightarrow> bool" where
  "isIndexKey r = (RANK_VALUE r \<le> 9)"

definition countKeys :: "card list \<Rightarrow> rank list" where
  "countKeys cards =
     (let ks = insertionOrder (map rank cards)
      in sort_key RANK_VALUE (filter isIndexKey ks) @ filter (\<lambda>k. \<not> isIndexKey k) ks)"

text \<open>\<^verbatim>\<open>getCounts(cards)[k]\<close>.\<close>

definition getCount :: "card list \<Rightarrow> rank \<Rightarrow> nat" where
  "getCount cards k = length (filter (\<lambda>c. rank c = k) cards)"

text \<open>
  The body of \<^verbatim>\<open>evaluateHand\<close> after the sort, on cards that are all defined.
  A number is tested for truth in \<^verbatim>\<open>if (straightFlushHigh)\<close> and
  \<^verbatim>\<open>if (straightHigh)\<close>: 0 counts as false. In the full-house branch the source also
  computes \<^verbatim>\<open>remaining\<close>, \<^verbatim>\<open>pairCandidates\<close> and \<^verbatim>\<open>pVal\<close>, which it never uses.
  The last branch reads \<^verbatim>\<open>allCards[0].value\<close>, a TypeError on an empty array.
\<close>

definition truthy :: "int option \<Rightarrow> bool" where
  "truthy h = (case h of None \<Rightarrow> False | Some v \<Rightarrow> v \<noteq> 0)"

definition rankSorted :: "card list \<Rightarrow> error + hand_result" where
  "rankSorted allCards =
     (case isFlush allCards of
        Some flushCards \<Rightarrow>
          (let straightFlushHigh = isStraight flushCards
           in if truthy straightFlushHigh
              then Inr \<lparr>score = 900 + the straightFlushHigh, name = ''Straight Flush'',
                        tieBreaker = None\<rparr>
              else Inr \<lparr>score = 600 + card_value (hd flushCards), name = ''Flush'',
                        tieBreaker = Some (map card_value flushCards)\<rparr>)
      | None \<Rightarrow>
          (let keys = countKeys allCards;
               quads = filter (\<lambda>k. getCount allCards k = 4) keys;
               trips = filter (\<lambda>k. getCount allCards k = 3) keys;
               pairs = filter (\<lambda>k. getCount allCards k = 2) keys;
               straightHigh = isStraight allCards
           in if 0 < length quads
              then Inr \<lparr>score = 800 + RANK_VALUE (hd quads),
                        name = ''Four of a Kind ('' @ rankString (hd quads) @ ''s)'',
                        tieBreaker = None\<rparr>
              else if 0 < length trips \<and> (2 \<le> length trips \<or> 0 < length pairs)
              then Inr \<lparr>score = 700 + Max (set (map RANK_VALUE trips)), name = ''Full House'',
                        tieBreaker = None\<rparr>
              else if truthy straightHigh
              then Inr \<lparr>score = 500 + the straightHigh, name = ''Straight'',
                        tieBreaker = None\<rparr>
              else if 0 < length trips
              then Inr \<lparr>score = 400 + Max (set (map RANK_VALUE trips)),
                        name = ''Three of a Kind ('' @ rankString (hd trips) @ ''s)'',
                        tieBreaker = None\<rparr>
              else if 2 \<le> length pairs
              then Inr \<lparr>score = 300 + RANK_VALUE (hd (sort_key (\<lambda>k. - RANK_VALUE k) pairs)),
                        name = ''Two Pair'', tieBreaker = None\<rparr>
              else if length pairs = 1
              then Inr \<lparr>score = 200 + RANK_VALUE (hd pairs),
                        name = ''Pair of '' @ rankString (hd pairs) @ ''s'',
                        tieBreaker = None\<rparr>
              else (case allCards of
                      [] \<Rightarrow> Inl TypeError
                    | c # _ \<Rightarrow> Inr \<lparr>score = 100 + card_value c, name = ''High Card'',
                                     tieBreaker = Some (map card_value (take 5 allCards))\<rparr>)))"

text \<open>
  \<^verbatim>\<open>evaluateHand(holeCards, communityCards)\<close>. The arrays may hold \<^verbatim>\<open>undefined\<close>
  (a deal from an empty deck). \<^verbatim>\<open>Array.prototype.sort\<close> moves \<^verbatim>\<open>undefined\<close> to the end
  without calling the comparator, and \<^verbatim>\<open>isFlush\<close> then reads \<^verbatim>\<open>c.suit\<close> of every
  element: a TypeError as soon as one element is \<^verbatim>\<open>undefined\<close>. Otherwise the sort is
  the stable sort by descending value.
\<close>

definition evaluateHand :: "card option list \<Rightarrow> card option list \<Rightarrow> error + hand_result" where
  "evaluateHand holeCards communityCards =
     (let allCards = holeCards @ communityCards
      in if None \<in> set allCards then Inl TypeError
         else rankSorted (sort_key (\<lambda>c. - card_value c) (map the allCards)))"

section \<open>server.js: the table\<close>

definition STARTING_CHIPS :: int where "STARTING_CHIPS = 200"
definition SMALL_BLIND :: int where "SMALL_BLIND = 1"
definition BIG_BLIND :: int where "BIG_BLIND = 2"

text \<open>
  The status strings of a player (\<^verbatim>\<open>'waiting'\<close>, \<^verbatim>\<open>'active'\<close>, \<^verbatim>\<open>'folded'\<close>,
  \<^verbatim>\<open>'all-in'\<close>, \<^verbatim>\<open>'sitting-out'\<close>, \<^verbatim>\<open>'busted'\<close>, and \<^verbatim>\<open>'ready'\<close>, which the
  source tests but never assigns), of a table and of a betting round.
\<close>

datatype status = PWaiting | Active | Folded | AllIn | SittingOut | Busted | Ready

datatype gameStatus = Waiting | Playing | Showdown

datatype street = Preflop | Flop | Turn | River

text \<open>
  A player object (the nickname, used in messages only, is left out). \<open>pid\<close> is the
  field \<^verbatim>\<open>id\<close>, the socket id. Chip counts are JavaScript numbers that only ever hold
  integers here; they are unbounded integers in the model.
\<close>

record player =
  pid :: string
  chips :: int
  seatIndex :: int
  status :: status
  hand :: "card option list"
  currentBet :: int
  actedInRound :: bool

text \<open>
  A room object. Its \<^verbatim>\<open>id\<close>, \<^verbatim>\<open>turnTimer\<close> and every \<^verbatim>\<open>emit\<close> are left out: they
  do not change the fields below. The fields from \<open>highestBet\<close> on are first assigned
  by \<^verbatim>\<open>startGame\<close>; the engine reads them only while \<^verbatim>\<open>gameStatus\<close> is
  \<^verbatim>\<open>'playing'\<close>, a status that only \<^verbatim>\<open>startGame\<close> sets, so \<open>roundName\<close> is one of
  the four strings that \<^verbatim>\<open>startGame\<close> and \<^verbatim>\<open>nextStreet\<close> assign. A player object is
  identified by its position in \<open>players\<close>; the timer that folds a silent player
  after twenty seconds submits an ordinary fold.
\<close>

record room =
  players :: "player list"
  gameStatus :: gameStatus
  minPlayers :: int
  dealerIndex :: int
  pot :: int
  communityCards :: "card option list"
  deck :: "card list"
  highestBet :: int
  roundName :: street
  lastRaiseAmount :: int
  sbIndex :: int
  bbIndex :: int
  currentTurnIndex :: int

text \<open>JavaScript's \<^verbatim>\<open>%\<close> on integers: the result takes the sign of the dividend.\<close>

definition jsRem :: "int \<Rightarrow> int \<Rightarrow> int" where
  "jsRem a n = (if a < 0 then - ((- a) mod n) else a mod n)"

text \<open>Replacing the player object at position \<open>i\<close> by its mutated self.\<close>

definition setPlayer :: "room \<Rightarrow> nat \<Rightarrow> player \<Rightarrow> room" where
  "setPlayer room i p = room\<lparr>players := (players room)[i := p]\<rparr>"

subsection \<open>endHand\<close>

definition isCandidate :: "player \<Rightarrow> bool" where
  "isCandidate p = (status p \<noteq> Folded \<and> status p \<noteq> SittingOut \<and> 0 < length (hand p))"

definition addChips :: "int \<Rightarrow> nat \<Rightarrow> player list \<Rightarrow> player list" where
  "addChips n i ps = ps[i := (ps ! i)\<lparr>chips := chips (ps ! i) + n\<rparr>]"

text \<open>
  \<^verbatim>\<open>endHand\<close> up to the \<^verbatim>\<open>setTimeout\<close> that schedules the reset. Candidates are
  positions in \<open>players\<close>. An exception of \<^verbatim>\<open>evaluateHand\<close> leaves the function
  (\<open>Inl\<close>). With no candidate at all, \<^verbatim>\<open>results[0]\<close> is \<^verbatim>\<open>undefined\<close> but the
  filter over the empty \<^verbatim>\<open>results\<close> never reads it, \<^verbatim>\<open>splitAmount\<close> is not a
  finite number and no winner receives it. \<^verbatim>\<open>Math.floor(pot / n)\<close> is \<open>div\<close> on
  integers. The pot itself is not changed here.
\<close>

definition endHand :: "room \<Rightarrow> error + room" where
  "endHand room0 =
     (let room = room0\<lparr>gameStatus := Showdown\<rparr>;
          ps = players room;
          candidates = filter (\<lambda>i. isCandidate (ps ! i)) [0..<length ps]
      in if length candidates = 1
         then Inr (room\<lparr>players := addChips (pot room) (hd candidates) ps\<rparr>)
         else (let evals = map (\<lambda>i. evaluateHand (hand (ps ! i)) (communityCards room))
                             candidates
               in if list_ex isl evals then Inl TypeError
                  else (let results = zip candidates (map (\<lambda>e. score (projr e)) evals);
                            sorted = sort_key (\<lambda>x. - snd x) results;
                            winners = filter (\<lambda>x. snd x = snd (hd sorted)) sorted;
                            splitAmount = pot room div int (length winners)
                        in Inr (room\<lparr>players :=
                                  fold (\<lambda>w. addChips splitAmount (fst w)) winners ps\<rparr>))))"

subsection \<open>nextTurn, checkRoundEnd, nextStreet\<close>

text \<open>
  The \<^verbatim>\<open>while (playersChecked < 9)\<close> loop of \<^verbatim>\<open>nextTurn\<close>; the last argument is the
  number of iterations left. \<^verbatim>\<open>players.find\<close> gives the first player on the seat.
\<close>

fun scanSeats :: "player list \<Rightarrow> int \<Rightarrow> nat \<Rightarrow> int option" where
  "scanSeats ps nextIndex 0 = None"
| "scanSeats ps nextIndex (Suc k) =
     (case find (\<lambda>pl. seatIndex pl = nextIndex) ps of
        Some p \<Rightarrow> if status p = Active \<and> 0 < chips p then Some nextIndex
                  else scanSeats ps (jsRem (nextIndex + 1) 9) k
      | None \<Rightarrow> scanSeats ps (jsRem (nextIndex + 1) 9) k)"

text \<open>\<^verbatim>\<open>totalInHand - foldedCount\<close> of \<^verbatim>\<open>checkRoundEnd\<close>.\<close>

definition handsLeft :: "room \<Rightarrow> int" where
  "handsLeft room =
     int (length (filter (\<lambda>p. 0 < length (hand p)) (players room)))
     - int (length (filter (\<lambda>p. status p = Folded) (players room)))"

definition bettingPlayers :: "room \<Rightarrow> player list" where
  "bettingPlayers room =
     filter (\<lambda>p. status p = Active)
       (filter (\<lambda>p. status p = Active \<or> status p = AllIn) (players room))"

definition pendingAction :: "room \<Rightarrow> bool" where
  "pendingAction room =
     list_ex (\<lambda>p. actedInRound p = False \<or> currentBet p < highestBet room)
       (bettingPlayers room)"

text \<open>The first statements of \<^verbatim>\<open>nextStreet\<close>: the bets go to the pot.\<close>

definition sweepBets :: "room \<Rightarrow> room" where
  "sweepBets room =
     room\<lparr>pot := fold (\<lambda>p acc. acc + currentBet p) (players room) (pot room),
          players := map (\<lambda>p. p\<lparr>currentBet := 0, actedInRound := False\<rparr>) (players room),
          highestBet := 0,
          lastRaiseAmount := BIG_BLIND\<rparr>"

text \<open>
  The flop: \<^verbatim>\<open>room.deck.deal() ? [deal(), deal(), deal()] : []\<close>. The condition pops
  a card of its own; a card object is true, \<^verbatim>\<open>undefined\<close> is false.
\<close>

definition dealFlop :: "room \<Rightarrow> room" where
  "dealFlop room =
     (let (guard, d1) = deal (deck room)
      in case guard of
           None \<Rightarrow> room\<lparr>roundName := Flop, communityCards := [], deck := d1\<rparr>
         | Some _ \<Rightarrow>
             (let (c1, d2) = deal d1; (c2, d3) = deal d2; (c3, d4) = deal d3
              in room\<lparr>roundName := Flop, communityCards := [c1, c2, c3], deck := d4\<rparr>))"

text \<open>The turn and the river: \<^verbatim>\<open>room.communityCards.push(room.deck.deal())\<close>.\<close>

definition dealOne :: "street \<Rightarrow> room \<Rightarrow> room" where
  "dealOne st room =
     (let (c, d) = deal (deck room)
      in room\<lparr>roundName := st, communityCards := communityCards room @ [c], deck := d\<rparr>)"

text \<open>The \<^verbatim>\<open>if\<close> chain on \<^verbatim>\<open>roundName\<close>, without its last branch (the river).\<close>

definition dealStreet :: "room \<Rightarrow> room" where
  "dealStreet room =
     (case roundName room of
        Preflop \<Rightarrow> dealFlop room
      | Flop \<Rightarrow> dealOne Turn room
      | Turn \<Rightarrow> dealOne River room
      | River \<Rightarrow> room)"

text \<open>\<^verbatim>\<open>room.currentTurnIndex = nextIdx - 1\<close> with \<^verbatim>\<open>nextIdx = (dealerIndex + 1) % 9\<close>.\<close>

definition turnBeforeFirst :: "room \<Rightarrow> room" where
  "turnBeforeFirst room = room\<lparr>currentTurnIndex := jsRem (dealerIndex room + 1) 9 - 1\<rparr>"

text \<open>\<^verbatim>\<open>while (room.communityCards.length < 5) room.communityCards.push(room.deck.deal())\<close>.\<close>

function runOut :: "room \<Rightarrow> room" where
  "runOut room =
     (if length (communityCards room) < 5
      then (let (c, d) = deal (deck room)
            in runOut (room\<lparr>communityCards := communityCards room @ [c], deck := d\<rparr>))
      else room)"
  by pat_completeness auto
termination
  by (relation "measure (\<lambda>room. 5 - length (communityCards room))")
     (auto split: prod.splits)

declare runOut.simps [simp del]

definition streetsLeft :: "room \<Rightarrow> nat" where
  "streetsLeft room = (case roundName room of Preflop \<Rightarrow> 3 | Flop \<Rightarrow> 2 | Turn \<Rightarrow> 1 | River \<Rightarrow> 0)"

text \<open>
  The three functions call each other: \<^verbatim>\<open>nextTurn\<close> falls back on
  \<^verbatim>\<open>checkRoundEnd\<close> (whose result it drops), \<^verbatim>\<open>checkRoundEnd\<close> calls
  \<^verbatim>\<open>nextStreet\<close>, and \<^verbatim>\<open>nextStreet\<close> calls \<^verbatim>\<open>nextTurn\<close> on the next street.
  \<^verbatim>\<open>checkRoundEnd\<close> returns the flag and, here, the room as it has left it.
\<close>

function nextTurn :: "room \<Rightarrow> error + room"
  and checkRoundEnd :: "room \<Rightarrow> error + (bool \<times> room)"
  and nextStreet :: "room \<Rightarrow> error + room"
where
  "nextTurn room =
     (if gameStatus room \<noteq> Playing then Inr room
      else (case scanSeats (players room) (jsRem (currentTurnIndex room + 1) 9) 9 of
              Some nextIndex \<Rightarrow> Inr (room\<lparr>currentTurnIndex := nextIndex\<rparr>)
            | None \<Rightarrow> map_sum id snd (checkRoundEnd room)))"
| "checkRoundEnd room =
     (if gameStatus room \<noteq> Playing then Inr (True, room)
      else if handsLeft room = 1 then map_sum id (Pair True) (endHand room)
      else if \<not> pendingAction room then map_sum id (Pair True) (nextStreet room)
      else Inr (False, room))"
| "nextStreet room =
     (if roundName (sweepBets room) = River then endHand (sweepBets room)
      else if length (filter (\<lambda>p. status p = Active)
                        (players (turnBeforeFirst (dealStreet (sweepBets room))))) < 2
      then endHand (runOut (turnBeforeFirst (dealStreet (sweepBets room))))
      else nextTurn (turnBeforeFirst (dealStreet (sweepBets room))))"
  by pat_completeness auto
termination
  by (relation "measure (\<lambda>x. case x of
                    Inl room \<Rightarrow> 3 * streetsLeft room + 2
                  | Inr (Inl room) \<Rightarrow> 3 * streetsLeft room + 1
                  | Inr (Inr room) \<Rightarrow> 3 * streetsLeft room)")
     (auto simp: streetsLeft_def sweepBets_def dealStreet_def dealFlop_def dealOne_def
        turnBeforeFirst_def split: street.splits prod.splits option.splits)

declare nextTurn.simps [simp del] checkRoundEnd.simps [simp del] nextStreet.simps [simp del]

subsection \<open>handlePlayerAction\<close>

text \<open>
  The message of a client: \<^verbatim>\<open>action\<close> is one of the strings the function tests
  (anything else is \<open>Unknown\<close>), \<open>amount\<close> is \<^verbatim>\<open>parseInt(amount)\<close>, \<open>None\<close>
  for \<^verbatim>\<open>NaN\<close>.
\<close>

datatype action = Fold | Check | Call | Bet | Raise | AllInAction | Unknown

record data =
  action :: action
  amount :: "int option"

text \<open>
  \<^verbatim>\<open>room.players.filter(p => p.status === 'active' && p.id !== player.id)
  .forEach(p => p.actedInRound = false)\<close>.
\<close>

definition reopenBetting :: "string \<Rightarrow> room \<Rightarrow> room" where
  "reopenBetting actorId room =
     room\<lparr>players := map (\<lambda>p. if status p = Active \<and> pid p \<noteq> actorId
                               then p\<lparr>actedInRound := False\<rparr> else p) (players room)\<rparr>"

text \<open>The branch for \<^verbatim>\<open>'bet'\<close> and \<^verbatim>\<open>'raise'\<close>.\<close>

definition raiseTo :: "room \<Rightarrow> nat \<Rightarrow> int option \<Rightarrow> room" where
  "raiseTo room i amt =
     (let player = players room ! i;
          parsed = (case amt of None \<Rightarrow> highestBet room + BIG_BLIND | Some a \<Rightarrow> a);
          minTotal = highestBet room
                     + (if lastRaiseAmount room = 0 then BIG_BLIND else lastRaiseAmount room);
          raiseTotal = (if parsed < minTotal \<and> parsed < chips player + currentBet player
                        then minTotal else parsed);
          needed = raiseTotal - currentBet player;
          room1 =
            (if chips player < needed
             then (let actualBet = chips player + currentBet player;
                       r = setPlayer room i
                             (player\<lparr>chips := 0, currentBet := actualBet, status := AllIn\<rparr>)
                   in if highestBet room < actualBet
                      then r\<lparr>lastRaiseAmount := actualBet - highestBet room,
                             highestBet := actualBet\<rparr>
                      else r)
             else (let p1 = player\<lparr>chips := chips player - needed,
                                   currentBet := currentBet player + needed\<rparr>;
                       diff = currentBet p1 - highestBet room;
                       r = setPlayer room i p1;
                       r' = (if 0 < diff then r\<lparr>lastRaiseAmount := diff\<rparr> else r)
                   in r'\<lparr>highestBet := currentBet p1\<rparr>))
      in reopenBetting (pid player) room1)"

text \<open>The branch for \<^verbatim>\<open>'all-in'\<close>.\<close>

definition shove :: "room \<Rightarrow> nat \<Rightarrow> room" where
  "shove room i =
     (let player = players room ! i;
          total = chips player + currentBet player;
          r = setPlayer room i (player\<lparr>chips := 0, currentBet := total, status := AllIn\<rparr>)
      in if highestBet room < total
         then reopenBetting (pid player)
                (r\<lparr>lastRaiseAmount := total - highestBet room, highestBet := total\<rparr>)
         else r)"

text \<open>
  \<^verbatim>\<open>handlePlayerAction\<close> from \<^verbatim>\<open>const toCall\<close> to \<^verbatim>\<open>player.actedInRound = true\<close>:
  the action applied to the player object at position \<open>i\<close> of \<open>players\<close>.
\<close>

definition applyAction :: "room \<Rightarrow> nat \<Rightarrow> data \<Rightarrow> room" where
  "applyAction room i d =
     (let player = players room ! i;
          toCall = highestBet room - currentBet player;
          room1 =
            (case action d of
               Fold \<Rightarrow> setPlayer room i (player\<lparr>status := Folded\<rparr>)
             | Check \<Rightarrow> if 0 < toCall then setPlayer room i (player\<lparr>status := Folded\<rparr>)
                        else room
             | Call \<Rightarrow>
                 (let contribution = min (chips player) toCall;
                      p1 = player\<lparr>chips := chips player - contribution,
                                  currentBet := currentBet player + contribution\<rparr>
                  in setPlayer room i (if chips p1 = 0 then p1\<lparr>status := AllIn\<rparr> else p1))
             | Bet \<Rightarrow> raiseTo room i (amount d)
             | Raise \<Rightarrow> raiseTo room i (amount d)
             | AllInAction \<Rightarrow> shove room i
             | Unknown \<Rightarrow> room)
      in setPlayer room1 i ((players room1 ! i)\<lparr>actedInRound := True\<rparr>))"

text \<open>
  \<^verbatim>\<open>handlePlayerAction(room, player, data)\<close>, \<open>player\<close> being the object at position
  \<open>i\<close> of \<^verbatim>\<open>room.players\<close> (the socket handlers find it there).
\<close>

definition handlePlayerAction :: "room \<Rightarrow> nat \<Rightarrow> data \<Rightarrow> error + room" where
  "handlePlayerAction room i d =
     (if gameStatus room \<noteq> Playing then Inr room
      else if seatIndex (players room ! i) \<noteq> currentTurnIndex room then Inr room
      else (case checkRoundEnd (applyAction room i d) of
              Inl e \<Rightarrow> Inl e
            | Inr (roundClosed, room') \<Rightarrow>
                if \<not> roundClosed then nextTurn room' else Inr room'))"

subsection \<open>startGame, the start request and the reset after a showdown\<close>

text \<open>
  The \<^verbatim>\<open>do ... while\<close> loop that moves the dealer button; the last argument is the
  number of attempts left (nine at the start).
\<close>

fun moveButton :: "player list \<Rightarrow> int \<Rightarrow> nat \<Rightarrow> int" where
  "moveButton ps d 0 = d"
| "moveButton ps d (Suc k) =
     (let d' = jsRem (d + 1) 9
      in if find (\<lambda>p. seatIndex p = d') ps = None \<and> 0 < k then moveButton ps d' k else d')"

text \<open>
  One step of \<^verbatim>\<open>playersInHand.forEach\<close>: the player at position \<open>i\<close> becomes
  active and is dealt two cards.
\<close>

definition dealIn :: "nat \<Rightarrow> player list \<times> card list \<Rightarrow> player list \<times> card list" where
  "dealIn i st =
     (let (ps, d) = st; (c1, d1) = deal d; (c2, d2) = deal d1
      in (ps[i := (ps ! i)\<lparr>status := Active, hand := [c1, c2], currentBet := 0,
                          actedInRound := False\<rparr>], d2))"

text \<open>
  The \<^verbatim>\<open>for\<close> loop of \<^verbatim>\<open>getNextPlayer\<close> over the offsets 1 to 9; \<open>inHand\<close> holds
  the positions of the players in the hand, sorted by seat.
\<close>

fun probeSeats :: "player list \<Rightarrow> nat list \<Rightarrow> int \<Rightarrow> int list \<Rightarrow> nat option" where
  "probeSeats ps inHand fromIndex [] = None"
| "probeSeats ps inHand fromIndex (k # ks) =
     (case find (\<lambda>j. seatIndex (ps ! j) = jsRem (fromIndex + k) 9) inHand of
        Some j \<Rightarrow> Some j
      | None \<Rightarrow> probeSeats ps inHand fromIndex ks)"

definition getNextPlayer :: "player list \<Rightarrow> nat list \<Rightarrow> int \<Rightarrow> nat" where
  "getNextPlayer ps inHand fromIndex =
     (case probeSeats ps inHand fromIndex [1, 2, 3, 4, 5, 6, 7, 8, 9] of
        Some j \<Rightarrow> j
      | None \<Rightarrow> hd inHand)"

text \<open>Posting a blind: \<^verbatim>\<open>amt = Math.min(p.chips, blind); p.chips -= amt; p.currentBet = amt\<close>.\<close>

definition postBlind :: "int \<Rightarrow> nat \<Rightarrow> player list \<Rightarrow> player list" where
  "postBlind blind i ps =
     (let amt = min (chips (ps ! i)) blind
      in ps[i := (ps ! i)\<lparr>chips := chips (ps ! i) - amt, currentBet := amt\<rparr>])"

text \<open>
  \<^verbatim>\<open>startGame(room)\<close>; \<open>shuffled\<close> is the array of the \<^verbatim>\<open>new Deck()\<close> it creates.
  With fewer than two players in the hand it returns after the first assignments and
  the move of the button. \<^verbatim>\<open>playersInHand.sort\<close> sorts in place, before
  \<^verbatim>\<open>playersInHand[0]\<close> is read.
\<close>

definition startGame :: "room \<Rightarrow> card list \<Rightarrow> room" where
  "startGame room0 shuffled =
     (let room1 = room0\<lparr>gameStatus := Playing, deck := shuffled, pot := 0,
                        communityCards := [], highestBet := 0, roundName := Preflop\<rparr>;
          room2 = room1\<lparr>dealerIndex := moveButton (players room1) (dealerIndex room1) 9\<rparr>;
          ps = players room2;
          playersInHand = filter (\<lambda>i. 0 < chips (ps ! i) \<and> status (ps ! i) \<noteq> SittingOut)
                            [0..<length ps]
      in if length playersInHand < 2 then room2\<lparr>gameStatus := Waiting\<rparr>
         else (let (ps1, d1) = fold dealIn playersInHand (ps, deck room2);
                   sortedSeats = sort_key (\<lambda>i. seatIndex (ps1 ! i)) playersInHand;
                   dealer = (case find (\<lambda>i. seatIndex (ps1 ! i) = dealerIndex room2)
                                    sortedSeats of
                               Some i \<Rightarrow> i
                             | None \<Rightarrow> hd sortedSeats);
                   sbPlayer = getNextPlayer ps1 sortedSeats (seatIndex (ps1 ! dealer));
                   bbPlayer = (if length sortedSeats = 2 then dealer
                               else getNextPlayer ps1 sortedSeats (seatIndex (ps1 ! sbPlayer)));
                   ps2 = postBlind SMALL_BLIND sbPlayer ps1;
                   ps3 = postBlind BIG_BLIND bbPlayer ps2;
                   utgPlayer = getNextPlayer ps3 sortedSeats (seatIndex (ps3 ! bbPlayer))
               in room2\<lparr>players := ps3, deck := d1,
                        sbIndex := seatIndex (ps3 ! sbPlayer),
                        bbIndex := seatIndex (ps3 ! bbPlayer),
                        highestBet := BIG_BLIND, lastRaiseAmount := BIG_BLIND,
                        currentTurnIndex := seatIndex (ps3 ! utgPlayer)\<rparr>))"

text \<open>
  The handler of \<^verbatim>\<open>'startGameRequest'\<close>, for the room of the requesting socket
  (a socket in no room is ignored before the room is read).
\<close>

definition startGameRequest :: "room \<Rightarrow> card list \<Rightarrow> room" where
  "startGameRequest room shuffled =
     (if gameStatus room \<noteq> Waiting then room
      else if int (length (players room)) < minPlayers room then room
      else startGame room shuffled)"

text \<open>\<^verbatim>\<open>startNextHandOrWait(room)\<close>, run eight seconds after \<^verbatim>\<open>endHand\<close>.\<close>

definition resetPlayer :: "player \<Rightarrow> player" where
  "resetPlayer p =
     (let p1 = p\<lparr>hand := [], currentBet := 0, actedInRound := False\<rparr>
      in if status p1 \<noteq> SittingOut
         then p1\<lparr>status := (if 0 < chips p1 then PWaiting else Busted)\<rparr>
         else p1)"

definition playersWithChips :: "room \<Rightarrow> player list" where
  "playersWithChips room =
     filter (\<lambda>p. 0 < chips p)
       (filter (\<lambda>p. status p = PWaiting \<or> status p = Active \<or> status p = Ready)
          (players room))"

definition startNextHandOrWait :: "room \<Rightarrow> card list \<Rightarrow> room" where
  "startNextHandOrWait room0 shuffled =
     (let room = room0\<lparr>players := map resetPlayer (players room0), pot := 0,
                       communityCards := [], gameStatus := Waiting\<rparr>
      in if minPlayers room \<le> int (length (playersWithChips room))
         then startGame room shuffled
         else room)"

section \<open>Quantities and conditions of the specification\<close>

text \<open>The conserved quantity of the specification: all stacks, the pot and all bets.\<close>

definition chipTotal :: "room \<Rightarrow> int" where
  "chipTotal room =
     sum_list (map chips (players room)) + pot room + sum_list (map currentBet (players room))"

text \<open>
  The conditions of the specification on a betting round: every player who can still
  bet (status active) has acted and has matched the highest bet; some such player has
  not acted or has bet less.
\<close>

definition allSettled :: "room \<Rightarrow> bool" where
  "allSettled room =
     list_all (\<lambda>p. actedInRound p \<and> currentBet p = highestBet room)
       (filter (\<lambda>p. status p = Active) (players room))"

definition someUnsettled :: "room \<Rightarrow> bool" where
  "someUnsettled room =
     list_ex (\<lambda>p. currentBet p < highestBet room \<or> \<not> actedInRound p)
       (filter (\<lambda>p. status p = Active) (players room))"

fun streetAfter :: "street \<Rightarrow> street" where
  "streetAfter Preflop = Flop"
| "streetAfter Flop = Turn"
| "streetAfter Turn = River"
| "streetAfter River = River"

text \<open>
  The showdown of the specification. A candidate is not folded, not sitting out and
  holds two cards; \<open>scoreOf\<close> is the score \<open>evaluateHand\<close> gives a player's hand with
  the community cards; \<open>showdownShare\<close> is what the specification lets the player at position
  \<open>i\<close> receive: the whole pot for a lone candidate, otherwise the pot divided (rounded
  down) by the number of candidates with the maximal score for each of these, and
  nothing for anybody else.
\<close>

definition holdsTwoCards :: "player \<Rightarrow> bool" where
  "holdsTwoCards p =
     (status p \<noteq> Folded \<and> status p \<noteq> SittingOut \<and> length (hand p) = 2)"

definition scoreOf :: "room \<Rightarrow> player \<Rightarrow> int" where
  "scoreOf room p =
     (case evaluateHand (hand p) (communityCards room) of Inl e \<Rightarrow> 0 | Inr r \<Rightarrow> score r)"

definition showdownShare :: "room \<Rightarrow> nat \<Rightarrow> int" where
  "showdownShare room i =
     (let ps = players room;
          cands = filter (\<lambda>j. holdsTwoCards (ps ! j)) [0..<length ps];
          top = Max (set (map (\<lambda>j. scoreOf room (ps ! j)) cands));
          winners = filter (\<lambda>j. scoreOf room (ps ! j) = top) cands
      in if \<not> holdsTwoCards (ps ! i) then 0
         else if length cands = 1 then pot room
         else if scoreOf room (ps ! i) = top then pot room div int (length winners)
         else 0)"

text \<open>
  The data invariant of the specification (a hand has no or two cards), and the
  absence of \<^verbatim>\<open>undefined\<close> among the cards that the showdown reads.
\<close>

definition handsDealt :: "room \<Rightarrow> bool" where
  "handsDealt room = list_all (\<lambda>p. length (hand p) = 0 \<or> length (hand p) = 2) (players room)"

definition cardsDefined :: "room \<Rightarrow> bool" where
  "cardsDefined room =
     (None \<notin> set (communityCards room)
      \<and> list_all (\<lambda>p. None \<notin> set (hand p)) (filter holdsTwoCards (players room)))"

text \<open>
  A player who takes part in the next hand: \<^verbatim>\<open>p.chips > 0 && p.status !== 'sitting-out'\<close>.
\<close>

definition canPlay :: "player \<Rightarrow> bool" where
  "canPlay p = (0 < chips p \<and> status p \<noteq> SittingOut)"

text \<open>
  The categories of the specification on the cards themselves: five of the cards form a
  straight flush when they have one suit and consecutive values, the ace also counting
  below the two; four cards of one rank are four of a kind.
\<close>

definition fiveInSuitAndRow :: "card list \<Rightarrow> bool" where
  "fiveInSuitAndRow cs =
     (let vs = sort (map card_value cs)
      in length cs = 5 \<and> list_all (\<lambda>c. suit c = suit (hd cs)) cs
         \<and> (vs = map (\<lambda>k. hd vs + k) [0, 1, 2, 3, 4] \<or> vs = [2, 3, 4, 5, 14]))"

definition realizesStraightFlush :: "card list \<Rightarrow> bool" where
  "realizesStraightFlush cards = list_ex fiveInSuitAndRow (subseqs cards)"

definition realizesFourOfAKind :: "card list \<Rightarrow> bool" where
  "realizesFourOfAKind cards = list_ex (\<lambda>r. getCount cards r = 4) RANKS"

text \<open>
  Inputs of the evaluator as the deck produces them: seven distinct cards whose value is
  the value of their rank. A full house on the cards themselves: no four of a kind,
  three cards of one rank and two or more of another.
\<close>

definition wellFormed :: "card \<Rightarrow> bool" where
  "wellFormed c = (card_value c = RANK_VALUE (rank c))"

definition sevenCards :: "card list \<Rightarrow> bool" where
  "sevenCards cards = (length cards = 7 \<and> distinct cards \<and> list_all wellFormed cards)"

definition realizesFullHouse :: "card list \<Rightarrow> bool" where
  "realizesFullHouse cards =
     (\<not> realizesFourOfAKind cards
      \<and> list_ex (\<lambda>r. getCount cards r = 3
                     \<and> list_ex (\<lambda>q. q \<noteq> r \<and> 2 \<le> getCount cards q) RANKS) RANKS)"

section \<open>The elementary steps of the round machinery\<close>

text \<open>
  The elementary state changes out of which \<open>nextTurn\<close>, \<open>checkRoundEnd\<close> and
  \<open>nextStreet\<close> compose their result: moving the turn, the sweep of the bets, dealing
  a street, the run-out, and \<open>endHand\<close>.
\<close>

inductive engineStep :: "room \<Rightarrow> room \<Rightarrow> bool" where
  moveTurn: "engineStep room (room\<lparr>currentTurnIndex := k\<rparr>)"
| sweep: "engineStep room (sweepBets room)"
| street: "engineStep room (turnBeforeFirst (dealStreet room))"
| run: "engineStep room (runOut room)"
| finish: "endHand room = Inr room' \<Longrightarrow> engineStep room room'"

section \<open>Example tables\<close>

text \<open>The player object that the handler of \<^verbatim>\<open>'joinRoom'\<close> creates.\<close>

definition newPlayer :: "string \<Rightarrow> int \<Rightarrow> player" where
  "newPlayer sid seat =
     \<lparr>pid = sid, chips = STARTING_CHIPS, seatIndex = seat, status = PWaiting, hand = [],
      currentBet = 0, actedInRound = False\<rparr>"

text \<open>
  A table between two hands: five players are seated, three of them have lost their
  chips. The fields that only \<^verbatim>\<open>startGame\<close> assigns hold arbitrary values.
\<close>

definition lobby :: room where
  "lobby =
     \<lparr>players = [newPlayer ''a'' 0, newPlayer ''b'' 1,
                 (newPlayer ''c'' 2)\<lparr>chips := 0, status := Busted\<rparr>,
                 (newPlayer ''d'' 3)\<lparr>chips := 0, status := Busted\<rparr>,
                 (newPlayer ''e'' 4)\<lparr>chips := 0, status := Busted\<rparr>],
      gameStatus = Waiting, minPlayers = 5, dealerIndex = 0, pot = 0, communityCards = [],
      deck = [], highestBet = 0, roundName = Preflop, lastRaiseAmount = 0, sbIndex = 0,
      bbIndex = 0, currentTurnIndex = 0\<rparr>"

text \<open>
  \<open>lobby\<close> with a single chip left on seat 0: the table before the hand in which the
  small blind takes the last chip of the first player to act.
\<close>

definition shortStackLobby :: room where
  "shortStackLobby =
     lobby\<lparr>players := (players lobby)[0 := (players lobby ! 0)\<lparr>chips := 1\<rparr>]\<rparr>"

text \<open>
  The table right after \<^verbatim>\<open>startGame\<close> on \<open>lobby\<close> with the unshuffled deck: seat 0
  has posted the small blind and is to act.
\<close>

definition preflopTable :: room where
  "preflopTable =
     \<lparr>players =
        [\<lparr>pid = ''a'', chips = 199, seatIndex = 0, status = Active,
          hand = [Some (mkCard RA Clubs), Some (mkCard RK Clubs)], currentBet = 1,
          actedInRound = False\<rparr>,
         \<lparr>pid = ''b'', chips = 198, seatIndex = 1, status = Active,
          hand = [Some (mkCard RQ Clubs), Some (mkCard RJ Clubs)], currentBet = 2,
          actedInRound = False\<rparr>,
         (newPlayer ''c'' 2)\<lparr>chips := 0, status := Busted\<rparr>,
         (newPlayer ''d'' 3)\<lparr>chips := 0, status := Busted\<rparr>,
         (newPlayer ''e'' 4)\<lparr>chips := 0, status := Busted\<rparr>],
      gameStatus = Playing, minPlayers = 5, dealerIndex = 1, pot = 0, communityCards = [],
      deck = take 48 freshDeck, highestBet = 2, roundName = Preflop, lastRaiseAmount = 2,
      sbIndex = 0, bbIndex = 1, currentTurnIndex = 0\<rparr>"

text \<open>
  The table on the flop, two players in the hand, four chips in the pot, seat 0 to act.
  It is reached from \<open>lobby\<close> by a start request, a call and a check.
\<close>

definition flopTable :: room where
  "flopTable =
     \<lparr>players =
        [\<lparr>pid = ''a'', chips = 198, seatIndex = 0, status = Active,
          hand = [Some (mkCard RA Clubs), Some (mkCard RK Clubs)], currentBet = 0,
          actedInRound = False\<rparr>,
         \<lparr>pid = ''b'', chips = 198, seatIndex = 1, status = Active,
          hand = [Some (mkCard RQ Clubs), Some (mkCard RJ Clubs)], currentBet = 0,
          actedInRound = False\<rparr>,
         (newPlayer ''c'' 2)\<lparr>chips := 0, status := Busted\<rparr>,
         (newPlayer ''d'' 3)\<lparr>chips := 0, status := Busted\<rparr>,
         (newPlayer ''e'' 4)\<lparr>chips := 0, status := Busted\<rparr>],
      gameStatus = Playing, minPlayers = 5, dealerIndex = 1, pot = 4,
      communityCards = [Some (mkCard R9 Clubs), Some (mkCard R8 Clubs), Some (mkCard R7 Clubs)],
      deck = take 44 freshDeck, highestBet = 0, roundName = Flop, lastRaiseAmount = 2,
      sbIndex = 0, bbIndex = 1, currentTurnIndex = 0\<rparr>"

text \<open>
  The table on the flop after seat 0 has checked and seat 1 has raised to ten
  (reached from \<open>flopTable\<close> by these two actions).
\<close>

definition flopBetTable :: room where
  "flopBetTable =
     \<lparr>players =
        [\<lparr>pid = ''a'', chips = 198, seatIndex = 0, status = Active,
          hand = [Some (mkCard RA Clubs), Some (mkCard RK Clubs)], currentBet = 0,
          actedInRound = False\<rparr>,
         \<lparr>pid = ''b'', chips = 188, seatIndex = 1, status = Active,
          hand = [Some (mkCard RQ Clubs), Some (mkCard RJ Clubs)], currentBet = 10,
          actedInRound = True\<rparr>,
         (newPlayer ''c'' 2)\<lparr>chips := 0, status := Busted\<rparr>,
         (newPlayer ''d'' 3)\<lparr>chips := 0, status := Busted\<rparr>,
         (newPlayer ''e'' 4)\<lparr>chips := 0, status := Busted\<rparr>],
      gameStatus = Playing, minPlayers = 5, dealerIndex = 1, pot = 4,
      communityCards = [Some (mkCard R9 Clubs), Some (mkCard R8 Clubs), Some (mkCard R7 Clubs)],
      deck = take 44 freshDeck, highestBet = 10, roundName = Flop, lastRaiseAmount = 10,
      sbIndex = 0, bbIndex = 1, currentTurnIndex = 0\<rparr>"

text \<open>
  A table at the end of the river betting: seats 0 and 1 hold a pair of kings each,
  seat 2 has folded, five chips are in the pot.
\<close>

definition riverTable :: room where
  "riverTable =
     \<lparr>players =
        [\<lparr>pid = ''a'', chips = 100, seatIndex = 0, status = Active,
          hand = [Some (mkCard RA Spades), Some (mkCard RQ Diamonds)], currentBet = 0,
          actedInRound = True\<rparr>,
         \<lparr>pid = ''b'', chips = 50, seatIndex = 1, status = AllIn,
          hand = [Some (mkCard RA Hearts), Some (mkCard RJ Diamonds)], currentBet = 0,
          actedInRound = True\<rparr>,
         \<lparr>pid = ''c'', chips = 250, seatIndex = 2, status = Folded,
          hand = [Some (mkCard R7 Spades), Some (mkCard R7 Hearts)], currentBet = 0,
          actedInRound = True\<rparr>,
         (newPlayer ''d'' 3)\<lparr>chips := 0, status := Busted\<rparr>,
         (newPlayer ''e'' 4)\<lparr>chips := 0, status := Busted\<rparr>],
      gameStatus = Playing, minPlayers = 5, dealerIndex = 1, pot = 5,
      communityCards = [Some (mkCard RK Spades), Some (mkCard RK Hearts),
                        Some (mkCard R7 Diamonds), Some (mkCard R4 Clubs),
                        Some (mkCard R2 Spades)],
      deck = [], highestBet = 0, roundName = River, lastRaiseAmount = 2,
      sbIndex = 2, bbIndex = 0, currentTurnIndex = 0\<rparr>"

section \<open>The example tables are reached from the lobby\<close>

text \<open>
  Each of the example tables is the state in which the engine leaves the table before
  it, for the unshuffled deck.
\<close>

lemma preflopTable_reached: "startGameRequest lobby freshDeck = preflopTable"
  by code_simp

lemma flopTable_reached:
  "(case handlePlayerAction (startGameRequest lobby freshDeck) 0
           \<lparr>action = Call, amount = None\<rparr> of
      Inl e \<Rightarrow> Inl e
    | Inr room \<Rightarrow> handlePlayerAction room 1 \<lparr>action = Check, amount = None\<rparr>)
   = Inr flopTable"
  by code_simp

lemma flopBetTable_reached:
  "(case handlePlayerAction flopTable 0 \<lparr>action = Check, amount = None\<rparr> of
      Inl e \<Rightarrow> Inl e
    | Inr room \<Rightarrow> handlePlayerAction room 1 \<lparr>action = Raise, amount = Some 10\<rparr>)
   = Inr flopBetTable"
  by code_simp

section \<open>The evaluator on the wheel\<close>

text \<open>
  C7. For the hole cards ace of spades and two of diamonds with the community cards
  three of clubs, four of hearts, five of spades, nine of diamonds and king of clubs,
  \<open>evaluateHand\<close> returns the straight tier: 500 plus the high value 5 of the wheel,
  named Straight.
\<close>

theorem evaluateHand_wheel:
  "evaluateHand [Some (mkCard RA Spades), Some (mkCard R2 Diamonds)]
     [Some (mkCard R3 Clubs), Some (mkCard R4 Hearts), Some (mkCard R5 Spades),
      Some (mkCard R9 Diamonds), Some (mkCard RK Clubs)]
   = Inr \<lparr>score = 500 + 5, name = ''Straight'', tieBreaker = None\<rparr>"
  by code_simp

section \<open>Actions out of turn\<close>

text \<open>
  C5. An action submitted while the table is not playing, or by a player whose seat is
  not the seat to act, leaves the room exactly as it was.
\<close>

theorem handlePlayerAction_rejects:
  "gameStatus room \<noteq> Playing \<or> seatIndex (players room ! i) \<noteq> currentTurnIndex room
   \<Longrightarrow> handlePlayerAction room i d = Inr room"
  by (auto simp: handlePlayerAction_def)

theorem handlePlayerAction_rejects_witness:
  "gameStatus lobby \<noteq> Playing
   \<and> handlePlayerAction lobby 0 \<lparr>action = AllInAction, amount = None\<rparr> = Inr lobby
   \<and> gameStatus flopTable = Playing
   \<and> seatIndex (players flopTable ! 1) \<noteq> currentTurnIndex flopTable
   \<and> handlePlayerAction flopTable 1 \<lparr>action = Raise, amount = Some 50\<rparr> = Inr flopTable"
proof -
  have waiting: "gameStatus lobby \<noteq> Playing"
    by (simp add: lobby_def)
  have playing: "gameStatus flopTable = Playing"
    by (simp add: flopTable_def)
  have other: "seatIndex (players flopTable ! 1) \<noteq> currentTurnIndex flopTable"
    by (simp add: flopTable_def)
  show ?thesis
    using waiting playing other
      handlePlayerAction_rejects [of lobby 0 "\<lparr>action = AllInAction, amount = None\<rparr>"]
      handlePlayerAction_rejects [of flopTable 1 "\<lparr>action = Raise, amount = Some 50\<rparr>"]
    by simp
qed

section \<open>Frame lemmas of the street machinery\<close>

lemma deal_snoc: "deal (d @ [c]) = (Some c, d)"
  by (simp add: deal_def)

lemma dealFlop_four:
  "deck room = d @ [c3, c2, c1, g] \<Longrightarrow>
   dealFlop room = room\<lparr>roundName := Flop, communityCards := [Some c1, Some c2, Some c3],
                          deck := d\<rparr>"
proof -
  assume dk: "deck room = d @ [c3, c2, c1, g]"
  have a: "deal (d @ [c3, c2, c1, g]) = (Some g, d @ [c3, c2, c1])"
    using deal_snoc [of "d @ [c3, c2, c1]" g] by simp
  have b: "deal (d @ [c3, c2, c1]) = (Some c1, d @ [c3, c2])"
    using deal_snoc [of "d @ [c3, c2]" c1] by simp
  have c: "deal (d @ [c3, c2]) = (Some c2, d @ [c3])"
    using deal_snoc [of "d @ [c3]" c2] by simp
  show ?thesis
    by (simp add: dealFlop_def dk a b c deal_snoc)
qed

lemma dealOne_one:
  "deck room = d @ [c] \<Longrightarrow>
   dealOne st room = room\<lparr>roundName := st, communityCards := communityCards room @ [Some c],
                            deck := d\<rparr>"
  by (simp add: dealOne_def deal_snoc)

lemma sweepBets_frame [simp]:
  "deck (sweepBets room) = deck room"
  "communityCards (sweepBets room) = communityCards room"
  "roundName (sweepBets room) = roundName room"
  "gameStatus (sweepBets room) = gameStatus room"
  "dealerIndex (sweepBets room) = dealerIndex room"
  "map status (players (sweepBets room)) = map status (players room)"
  "map chips (players (sweepBets room)) = map chips (players room)"
  "length (players (sweepBets room)) = length (players room)"
  by (simp_all add: sweepBets_def comp_def)

lemma dealStreet_frame [simp]:
  "players (dealStreet room) = players room"
  "pot (dealStreet room) = pot room"
  "gameStatus (dealStreet room) = gameStatus room"
  "highestBet (dealStreet room) = highestBet room"
  "dealerIndex (dealStreet room) = dealerIndex room"
  by (simp_all add: dealStreet_def dealFlop_def dealOne_def
        split: street.splits prod.splits option.splits)

lemma turnBeforeFirst_frame [simp]:
  "players (turnBeforeFirst room) = players room"
  "pot (turnBeforeFirst room) = pot room"
  "deck (turnBeforeFirst room) = deck room"
  "communityCards (turnBeforeFirst room) = communityCards room"
  "roundName (turnBeforeFirst room) = roundName room"
  "gameStatus (turnBeforeFirst room) = gameStatus room"
  "highestBet (turnBeforeFirst room) = highestBet room"
  by (simp_all add: turnBeforeFirst_def)

lemma endHand_frame:
  assumes "endHand room = Inr room'"
  shows "gameStatus room' = Showdown" and "deck room' = deck room"
    and "communityCards room' = communityCards room" and "roundName room' = roundName room"
    and "pot room' = pot room"
  using assms by (auto simp: endHand_def Let_def split: if_splits)

text \<open>
  While some player who can still bet has a pending action, \<open>nextTurn\<close> deals no card
  and leaves the street alone: it moves the turn, ends the hand or changes nothing.
\<close>

lemma nextTurn_pending_frame:
  assumes "nextTurn room = Inr room'" and "pendingAction room"
  shows "deck room' = deck room \<and> communityCards room' = communityCards room
         \<and> roundName room' = roundName room"
proof (cases "gameStatus room \<noteq> Playing")
  case True
  with assms(1) show ?thesis by (subst (asm) nextTurn.simps) simp
next
  case playing: False
  show ?thesis
  proof (cases "scanSeats (players room) (jsRem (currentTurnIndex room + 1) 9) 9")
    case (Some idx)
    with assms(1) playing show ?thesis by (subst (asm) nextTurn.simps) auto
  next
    case None
    with assms(1) playing have c: "map_sum id snd (checkRoundEnd room) = Inr room'"
      by (subst (asm) nextTurn.simps) simp
    show ?thesis
    proof (cases "handsLeft room = 1")
      case True
      with c playing obtain r where "endHand room = Inr r" and "r = room'"
        by (subst (asm) checkRoundEnd.simps) (cases "endHand room"; simp)
      then show ?thesis using endHand_frame [of room room'] by simp
    next
      case False
      with c playing assms(2) show ?thesis
        by (subst (asm) checkRoundEnd.simps) simp
    qed
  qed
qed

text \<open>After the sweep nobody has acted, so any player who can still bet is pending.\<close>

lemma pending_after_sweep:
  assumes "filter (\<lambda>p. status p = Active) (players room) \<noteq> []"
  shows "pendingAction (turnBeforeFirst (dealStreet (sweepBets room)))"
proof -
  from assms obtain p where p: "p \<in> set (players room)" "status p = Active"
    by (metis (mono_tags, lifting) filter_False)
  then have "p\<lparr>currentBet := 0, actedInRound := False\<rparr>
             \<in> set (bettingPlayers (turnBeforeFirst (dealStreet (sweepBets room))))"
    by (auto simp: bettingPlayers_def sweepBets_def)
  then show ?thesis
    unfolding pendingAction_def list_ex_iff by (intro bexI [where x = "p\<lparr>currentBet := 0, actedInRound := False\<rparr>"]) simp_all
qed

section \<open>Cards dealt at a street transition\<close>

text \<open>
  C10. The street transition from the preflop takes four cards off the end of the
  deck, the first of them consumed by the test of the conditional, the next three
  becoming the flop; the transitions to the turn and to the river take one card each
  and append it. This holds of the \<^verbatim>\<open>if\<close> chain on \<^verbatim>\<open>roundName\<close> itself
  (\<open>dealStreet\<close>), and of a whole call of \<open>nextStreet\<close> that returns, as long as
  two or more players can still bet (otherwise the remaining streets are dealt at once).
\<close>

theorem nextStreet_deals:
  "(deck room = d @ [c3, c2, c1, g] \<and> roundName room = Preflop \<longrightarrow>
      dealStreet room = room\<lparr>roundName := Flop,
                             communityCards := [Some c1, Some c2, Some c3], deck := d\<rparr>)
   \<and> (deck room = e @ [c] \<and> roundName room = Flop \<longrightarrow>
      dealStreet room = room\<lparr>roundName := Turn,
                             communityCards := communityCards room @ [Some c], deck := e\<rparr>)
   \<and> (deck room = e @ [c] \<and> roundName room = Turn \<longrightarrow>
      dealStreet room = room\<lparr>roundName := River,
                             communityCards := communityCards room @ [Some c], deck := e\<rparr>)
   \<and> (nextStreet room = Inr room' \<and> roundName room \<noteq> River
        \<and> 2 \<le> length (filter (\<lambda>p. status p = Active) (players room)) \<longrightarrow>
      deck room' = deck (dealStreet room)
      \<and> communityCards room' = communityCards (dealStreet room)
      \<and> roundName room' = roundName (dealStreet room))"
proof (intro conjI impI)
  assume "deck room = d @ [c3, c2, c1, g] \<and> roundName room = Preflop"
  then show "dealStreet room = room\<lparr>roundName := Flop,
      communityCards := [Some c1, Some c2, Some c3], deck := d\<rparr>"
    by (simp add: dealStreet_def dealFlop_four)
next
  assume "deck room = e @ [c] \<and> roundName room = Flop"
  then show "dealStreet room = room\<lparr>roundName := Turn,
      communityCards := communityCards room @ [Some c], deck := e\<rparr>"
    by (simp add: dealStreet_def dealOne_one)
next
  assume "deck room = e @ [c] \<and> roundName room = Turn"
  then show "dealStreet room = room\<lparr>roundName := River,
      communityCards := communityCards room @ [Some c], deck := e\<rparr>"
    by (simp add: dealStreet_def dealOne_one)
next
  assume a: "nextStreet room = Inr room' \<and> roundName room \<noteq> River
    \<and> 2 \<le> length (filter (\<lambda>p. status p = Active) (players room))"
  let ?X = "turnBeforeFirst (dealStreet (sweepBets room))"
  from a have act: "filter (\<lambda>p. status p = Active) (players room) \<noteq> []"
    by auto
  have same: "filter (\<lambda>p. status p = Active) (players (sweepBets room))
              = map (\<lambda>p. p\<lparr>currentBet := 0, actedInRound := False\<rparr>)
                  (filter (\<lambda>p. status p = Active) (players room))"
    by (simp add: sweepBets_def filter_map comp_def)
  from a have ns: "nextStreet room = Inr room'" and nr: "roundName room \<noteq> River"
    and two: "2 \<le> length (filter (\<lambda>p. status p = Active) (players room))"
    by auto
  have len: "length (filter (\<lambda>p. status p = Active) (players ?X))
             = length (filter (\<lambda>p. status p = Active) (players room))"
    by (simp add: same)
  have "nextStreet room = nextTurn ?X"
    using nr two len by (subst nextStreet.simps) simp
  with ns have "nextTurn ?X = Inr room'"
    by simp
  from nextTurn_pending_frame [OF this pending_after_sweep [OF act]]
  have "deck room' = deck (dealStreet (sweepBets room))
        \<and> communityCards room' = communityCards (dealStreet (sweepBets room))
        \<and> roundName room' = roundName (dealStreet (sweepBets room))"
    by simp
  moreover have "deck (dealStreet (sweepBets room)) = deck (dealStreet room)"
    "communityCards (dealStreet (sweepBets room)) = communityCards (dealStreet room)"
    "roundName (dealStreet (sweepBets room)) = roundName (dealStreet room)"
    by (simp_all add: dealStreet_def dealFlop_def dealOne_def
          split: street.splits prod.splits option.splits)
  ultimately show "deck room' = deck (dealStreet room)"
    "communityCards room' = communityCards (dealStreet room)"
    "roundName room' = roundName (dealStreet room)"
    by simp_all
qed

theorem nextStreet_deals_witness:
  "deck preflopTable
     = take 44 freshDeck @ [mkCard R7 Clubs, mkCard R8 Clubs, mkCard R9 Clubs, mkCard RT Clubs]
   \<and> roundName preflopTable = Preflop
   \<and> dealStreet preflopTable
     = preflopTable\<lparr>roundName := Flop,
         communityCards := [Some (mkCard R9 Clubs), Some (mkCard R8 Clubs),
                            Some (mkCard R7 Clubs)],
         deck := take 44 freshDeck\<rparr>
   \<and> deck flopTable = take 43 freshDeck @ [mkCard R6 Clubs]
   \<and> roundName flopTable = Flop
   \<and> dealStreet flopTable
     = flopTable\<lparr>roundName := Turn,
         communityCards := communityCards flopTable @ [Some (mkCard R6 Clubs)],
         deck := take 43 freshDeck\<rparr>
   \<and> nextStreet preflopTable = Inr (projr (nextStreet preflopTable))
   \<and> 2 \<le> length (filter (\<lambda>p. status p = Active) (players preflopTable))
   \<and> deck (projr (nextStreet preflopTable)) = take 44 freshDeck
   \<and> communityCards (projr (nextStreet preflopTable))
     = [Some (mkCard R9 Clubs), Some (mkCard R8 Clubs), Some (mkCard R7 Clubs)]
   \<and> roundName (projr (nextStreet preflopTable)) = Flop"
proof -
  have dp: "deck preflopTable
     = take 44 freshDeck @ [mkCard R7 Clubs, mkCard R8 Clubs, mkCard R9 Clubs, mkCard RT Clubs]"
    by code_simp
  have rp: "roundName preflopTable = Preflop"
    by (simp add: preflopTable_def)
  have df: "deck flopTable = take 43 freshDeck @ [mkCard R6 Clubs]"
    by code_simp
  have rf: "roundName flopTable = Flop"
    by (simp add: flopTable_def)
  have ret: "nextStreet preflopTable = Inr (projr (nextStreet preflopTable))"
    by code_simp
  have two: "2 \<le> length (filter (\<lambda>p. status p = Active) (players preflopTable))"
    by (simp add: preflopTable_def newPlayer_def)
  note pre = nextStreet_deals [where room = preflopTable and d = "take 44 freshDeck"
      and ?c3.0 = "mkCard R7 Clubs" and ?c2.0 = "mkCard R8 Clubs" and ?c1.0 = "mkCard R9 Clubs"
      and g = "mkCard RT Clubs" and room' = "projr (nextStreet preflopTable)"]
  note flop = nextStreet_deals [where room = flopTable and e = "take 43 freshDeck"
      and c = "mkCard R6 Clubs"]
  have a: "dealStreet preflopTable
     = preflopTable\<lparr>roundName := Flop,
         communityCards := [Some (mkCard R9 Clubs), Some (mkCard R8 Clubs),
                            Some (mkCard R7 Clubs)],
         deck := take 44 freshDeck\<rparr>"
    using pre dp rp by blast
  have b: "dealStreet flopTable
     = flopTable\<lparr>roundName := Turn,
         communityCards := communityCards flopTable @ [Some (mkCard R6 Clubs)],
         deck := take 43 freshDeck\<rparr>"
    using flop df rf by blast
  have c: "deck (projr (nextStreet preflopTable)) = deck (dealStreet preflopTable)
      \<and> communityCards (projr (nextStreet preflopTable))
        = communityCards (dealStreet preflopTable)
      \<and> roundName (projr (nextStreet preflopTable)) = roundName (dealStreet preflopTable)"
    using pre ret rp two by simp
  show ?thesis
    using dp rp df rf ret two a b c by simp
qed

section \<open>What the round machinery is made of\<close>

lemma runOut_players [simp]: "players (runOut room) = players room"
  by (induction room rule: runOut.induct) (subst runOut.simps, auto split: prod.splits)

lemma runOut_pot [simp]: "pot (runOut room) = pot room"
  by (induction room rule: runOut.induct) (subst runOut.simps, auto split: prod.splits)

lemma runOut_gameStatus [simp]: "gameStatus (runOut room) = gameStatus room"
  by (induction room rule: runOut.induct) (subst runOut.simps, auto split: prod.splits)

lemma runOut_roundName [simp]: "roundName (runOut room) = roundName room"
  by (induction room rule: runOut.induct) (subst runOut.simps, auto split: prod.splits)

lemma map_sum_snd_Inr: "map_sum id snd x = Inr r \<Longrightarrow> \<exists>b. x = Inr (b, r)"
  by (cases x) auto

lemma map_sum_Pair_Inr: "map_sum id (Pair c) x = Inr (b, r) \<Longrightarrow> x = Inr r"
  by (cases x) auto

lemma engine_steps:
  "\<forall>room'. nextTurn room = Inr room' \<longrightarrow> engineStep\<^sup>*\<^sup>* room room'"
  "\<forall>b room'. checkRoundEnd room = Inr (b, room') \<longrightarrow> engineStep\<^sup>*\<^sup>* room room'"
  "\<forall>room'. nextStreet room = Inr room' \<longrightarrow> engineStep\<^sup>*\<^sup>* room room'"
proof (induction room and room and room rule: nextTurn_checkRoundEnd_nextStreet.induct)
  case (1 room)
  show ?case
  proof (intro allI impI)
    fix room'
    assume r: "nextTurn room = Inr room'"
    show "engineStep\<^sup>*\<^sup>* room room'"
    proof (cases "gameStatus room \<noteq> Playing")
      case True
      with r have "room' = room" by (subst (asm) nextTurn.simps) simp
      then show ?thesis by simp
    next
      case playing: False
      show ?thesis
      proof (cases "scanSeats (players room) (jsRem (currentTurnIndex room + 1) 9) 9")
        case (Some k)
        with r playing have "room' = room\<lparr>currentTurnIndex := k\<rparr>"
          by (subst (asm) nextTurn.simps) auto
        then show ?thesis using engineStep.moveTurn [of room k] by simp
      next
        case None
        with r playing have "map_sum id snd (checkRoundEnd room) = Inr room'"
          by (subst (asm) nextTurn.simps) simp
        from map_sum_snd_Inr [OF this] obtain b where "checkRoundEnd room = Inr (b, room')" ..
        with "1.IH" [OF playing None] show ?thesis by simp
      qed
    qed
  qed
next
  case (2 room)
  show ?case
  proof (intro allI impI)
    fix b room'
    assume r: "checkRoundEnd room = Inr (b, room')"
    show "engineStep\<^sup>*\<^sup>* room room'"
    proof (cases "gameStatus room \<noteq> Playing")
      case True
      with r have "room' = room" by (subst (asm) checkRoundEnd.simps) simp
      then show ?thesis by simp
    next
      case playing: False
      show ?thesis
      proof (cases "handsLeft room = 1")
        case True
        with r playing have "map_sum id (Pair True) (endHand room) = Inr (b, room')"
          by (subst (asm) checkRoundEnd.simps) simp
        then have "endHand room = Inr room'"
          by (rule map_sum_Pair_Inr)
        then have "engineStep room room'" by (rule engineStep.finish)
        then show ?thesis by (rule r_into_rtranclp)
      next
        case more: False
        show ?thesis
        proof (cases "pendingAction room")
          case True
          with r playing more have "room' = room"
            by (subst (asm) checkRoundEnd.simps) simp
          then show ?thesis by simp
        next
          case False
          with r playing more
          have "map_sum id (Pair True) (nextStreet room) = Inr (b, room')"
            by (subst (asm) checkRoundEnd.simps) simp
          then have "nextStreet room = Inr room'"
            by (rule map_sum_Pair_Inr)
          with "2.IH" [OF playing more False] show ?thesis by simp
        qed
      qed
    qed
  qed
next
  case (3 room)
  let ?X = "turnBeforeFirst (dealStreet (sweepBets room))"
  have toX: "engineStep\<^sup>*\<^sup>* room ?X"
    using engineStep.sweep [of room] engineStep.street [of "sweepBets room"]
    by (rule_tac rtranclp.rtrancl_into_rtrancl [OF r_into_rtranclp])
  show ?case
  proof (intro allI impI)
    fix room'
    assume r: "nextStreet room = Inr room'"
    show "engineStep\<^sup>*\<^sup>* room room'"
    proof (cases "roundName (sweepBets room) = River")
      case True
      with r have "endHand (sweepBets room) = Inr room'"
        by (subst (asm) nextStreet.simps) simp
      then have "engineStep (sweepBets room) room'" by (rule engineStep.finish)
      with engineStep.sweep [of room] show ?thesis
        by (rule_tac rtranclp.rtrancl_into_rtrancl [OF r_into_rtranclp])
    next
      case notRiver: False
      show ?thesis
      proof (cases "length (filter (\<lambda>p. status p = Active) (players ?X)) < 2")
        case True
        with r notRiver have "endHand (runOut ?X) = Inr room'"
          by (subst (asm) nextStreet.simps) simp
        then have "engineStep (runOut ?X) room'" by (rule engineStep.finish)
        with engineStep.run [of ?X] have "engineStep\<^sup>*\<^sup>* ?X room'"
          by (rule_tac rtranclp.rtrancl_into_rtrancl [OF r_into_rtranclp])
        with toX show ?thesis by simp
      next
        case False
        with r notRiver have "nextTurn ?X = Inr room'"
          by (subst (asm) nextStreet.simps) simp
        with "3.IH" [OF notRiver False] have "engineStep\<^sup>*\<^sup>* ?X room'" by simp
        with toX show ?thesis by simp
      qed
    qed
  qed
qed

text \<open>
  What \<open>handlePlayerAction\<close> does to an action it accepts: the round machinery runs
  on the room with the action applied.
\<close>

lemma handlePlayerAction_steps:
  assumes "gameStatus room = Playing"
    and "seatIndex (players room ! i) = currentTurnIndex room"
    and "handlePlayerAction room i d = Inr room'"
  shows "engineStep\<^sup>*\<^sup>* (applyAction room i d) room'"
proof -
  let ?acted = "applyAction room i d"
  from assms have c: "(case checkRoundEnd ?acted of
                         Inl e \<Rightarrow> Inl e
                       | Inr (roundClosed, r) \<Rightarrow> if \<not> roundClosed then nextTurn r else Inr r)
                      = Inr room'"
    by (simp add: handlePlayerAction_def)
  then obtain roundClosed r where cr: "checkRoundEnd ?acted = Inr (roundClosed, r)"
    by (cases "checkRoundEnd ?acted") auto
  with c have rest: "(if \<not> roundClosed then nextTurn r else Inr r) = Inr room'"
    by simp
  from cr engine_steps(2) have s1: "engineStep\<^sup>*\<^sup>* ?acted r"
    by simp
  have s2: "engineStep\<^sup>*\<^sup>* r room'"
  proof (cases roundClosed)
    case True
    with rest show ?thesis by simp
  next
    case False
    with rest engine_steps(1) show ?thesis by simp
  qed
  from s1 s2 show ?thesis
    by (rule rtranclp_trans)
qed

section \<open>Chip conservation\<close>



lemma chipTotal_other_fields [simp]:
  "chipTotal (room\<lparr>highestBet := h\<rparr>) = chipTotal room"
  "chipTotal (room\<lparr>lastRaiseAmount := l\<rparr>) = chipTotal room"
  "chipTotal (room\<lparr>currentTurnIndex := k\<rparr>) = chipTotal room"
  by (simp_all add: chipTotal_def)

lemma reopenBetting_chips [simp]:
  "map chips (players (reopenBetting a room)) = map chips (players room)"
  "map currentBet (players (reopenBetting a room)) = map currentBet (players room)"
  "pot (reopenBetting a room) = pot room"
  "length (players (reopenBetting a room)) = length (players room)"
  by (simp_all add: reopenBetting_def comp_def if_distrib [of chips] if_distrib [of currentBet])

lemma chipTotal_reopenBetting [simp]: "chipTotal (reopenBetting a room) = chipTotal room"
  by (simp add: chipTotal_def)

lemma setPlayer_length [simp]: "length (players (setPlayer room i p)) = length (players room)"
  by (simp add: setPlayer_def)

lemma setPlayer_other_fields [simp]:
  "setPlayer (room\<lparr>highestBet := h\<rparr>) i p = (setPlayer room i p)\<lparr>highestBet := h\<rparr>"
  "setPlayer (room\<lparr>lastRaiseAmount := l\<rparr>) i p = (setPlayer room i p)\<lparr>lastRaiseAmount := l\<rparr>"
  by (simp_all add: setPlayer_def)




lemma applyAction_gameStatus [simp]: "gameStatus (applyAction room i d) = gameStatus room"
  by (simp add: applyAction_def Let_def setPlayer_def raiseTo_def shove_def reopenBetting_def
        split: action.splits)







section \<open>A check while a call is owed\<close>

lemma addChips_statuses [simp]: "map status (addChips n j ps) = map status ps"
proof (cases "j < length ps")
  case True
  then show ?thesis by (simp add: addChips_def map_update list_update_same_conv)
next
  case False
  then have "length ps \<le> j" by simp
  then show ?thesis by (simp add: addChips_def list_update_beyond)
qed

lemma fold_addChips_statuses [simp]:
  "map status (fold (\<lambda>w. addChips n (fst w)) ws ps) = map status ps"
  by (induction ws arbitrary: ps) simp_all

lemma endHand_statuses:
  "endHand room = Inr room' \<Longrightarrow> map status (players room') = map status (players room)"
  by (auto simp: endHand_def Let_def split: if_splits)

lemma engineStep_statuses:
  assumes "engineStep room room'"
  shows "map status (players room') = map status (players room)"
  using assms
proof cases
  case (moveTurn k)
  then show ?thesis by simp
next
  case sweep
  then show ?thesis by simp
next
  case street
  then show ?thesis by simp
next
  case run
  then show ?thesis by simp
next
  case finish
  then show ?thesis by (simp add: endHand_statuses)
qed

lemma engineSteps_statuses:
  assumes "engineStep\<^sup>*\<^sup>* room room'"
  shows "map status (players room') = map status (players room)"
  using assms
proof (induction rule: rtranclp_induct)
  case base
  then show ?case by simp
next
  case (step y z)
  from engineStep_statuses [OF step.hyps(2)] step.IH show ?case by simp
qed

text \<open>
  C6. Applying a check of the player at position \<open>i\<close>: when the amount to call
  (\<open>highestBet\<close> minus the player's \<open>currentBet\<close>) is positive, the player is
  folded and marked as having acted, and nothing else changes (no chips move, the
  action is not dropped), and the player is still folded in the room that
  \<open>handlePlayerAction\<close> returns for the player whose turn it is; when the amount is
  0, only the mark changes: chips, bets, pot and every status stay as they were.
\<close>

theorem check_while_owing_folds:
  "i < length (players room) \<Longrightarrow> action d = Check \<Longrightarrow>
   (0 < highestBet room - currentBet (players room ! i) \<longrightarrow>
      applyAction room i d
      = room\<lparr>players := (players room)
                [i := (players room ! i)\<lparr>status := Folded, actedInRound := True\<rparr>]\<rparr>
      \<and> (gameStatus room = Playing \<and> seatIndex (players room ! i) = currentTurnIndex room
           \<and> handlePlayerAction room i d = Inr room' \<longrightarrow>
          length (players room') = length (players room)
          \<and> status (players room' ! i) = Folded))
   \<and> (highestBet room - currentBet (players room ! i) = 0 \<longrightarrow>
      applyAction room i d
      = room\<lparr>players := (players room)[i := (players room ! i)\<lparr>actedInRound := True\<rparr>]\<rparr>)"
proof (intro conjI impI)
  assume i: "i < length (players room)" and d: "action d = Check"
    and owed: "0 < highestBet room - currentBet (players room ! i)"
  then show folded: "applyAction room i d
      = room\<lparr>players := (players room)
                [i := (players room ! i)\<lparr>status := Folded, actedInRound := True\<rparr>]\<rparr>"
    by (simp add: applyAction_def setPlayer_def)
  assume "gameStatus room = Playing \<and> seatIndex (players room ! i) = currentTurnIndex room
    \<and> handlePlayerAction room i d = Inr room'"
  then have "engineStep\<^sup>*\<^sup>* (applyAction room i d) room'"
    by (simp add: handlePlayerAction_steps)
  from engineSteps_statuses [OF this]
  have same: "map status (players room') = map status (players (applyAction room i d))" .
  from arg_cong [OF same, of length] show len: "length (players room') = length (players room)"
    by (simp add: folded)
  from arg_cong [OF same, of "\<lambda>xs. xs ! i"] i len show "status (players room' ! i) = Folded"
    by (simp add: folded)
next
  assume "i < length (players room)" "action d = Check"
    "highestBet room - currentBet (players room ! i) = 0"
  then show "applyAction room i d
      = room\<lparr>players := (players room)[i := (players room ! i)\<lparr>actedInRound := True\<rparr>]\<rparr>"
    by (simp add: applyAction_def setPlayer_def)
qed

theorem check_while_owing_folds_witness:
  "0 < length (players preflopTable)
   \<and> 0 < highestBet preflopTable - currentBet (players preflopTable ! 0)
   \<and> applyAction preflopTable 0 \<lparr>action = Check, amount = None\<rparr>
     = preflopTable\<lparr>players := (players preflopTable)
         [0 := (players preflopTable ! 0)\<lparr>status := Folded, actedInRound := True\<rparr>]\<rparr>
   \<and> map_sum id (\<lambda>r. map status (players r))
       (handlePlayerAction preflopTable 0 \<lparr>action = Check, amount = None\<rparr>)
     = Inr [Folded, Active, Busted, Busted, Busted]
   \<and> highestBet flopTable - currentBet (players flopTable ! 0) = 0
   \<and> applyAction flopTable 0 \<lparr>action = Check, amount = None\<rparr>
     = flopTable\<lparr>players := (players flopTable)
         [0 := (players flopTable ! 0)\<lparr>actedInRound := True\<rparr>]\<rparr>"
proof -
  let ?d = "\<lparr>action = Check, amount = None\<rparr>"
  have p: "0 < length (players preflopTable)" and f: "0 < length (players flopTable)"
    by (simp_all add: preflopTable_def flopTable_def)
  have owed: "0 < highestBet preflopTable - currentBet (players preflopTable ! 0)"
    by (simp add: preflopTable_def)
  have even: "highestBet flopTable - currentBet (players flopTable ! 0) = 0"
    by (simp add: flopTable_def)
  have after: "map_sum id (\<lambda>r. map status (players r)) (handlePlayerAction preflopTable 0 ?d)
               = Inr [Folded, Active, Busted, Busted, Busted]"
    by code_simp
  show ?thesis
    using p owed even after
      check_while_owing_folds [OF p, of ?d]
      check_while_owing_folds [OF f, of ?d]
    by simp
qed

section \<open>Round closure\<close>

lemma bettingPlayers_active:
  "bettingPlayers room = filter (\<lambda>p. status p = Active) (players room)"
  by (auto simp: bettingPlayers_def intro!: filter_cong)

lemma settled_not_pending: "allSettled room \<Longrightarrow> \<not> pendingAction room"
  by (auto simp: allSettled_def pendingAction_def bettingPlayers_active list_all_iff list_ex_iff)

lemma unsettled_pending: "someUnsettled room \<Longrightarrow> pendingAction room"
  by (auto simp: someUnsettled_def pendingAction_def bettingPlayers_active list_ex_iff)

lemma dealStreet_roundName:
  "roundName room \<noteq> River \<Longrightarrow> roundName (dealStreet room) = streetAfter (roundName room)"
  by (cases "roundName room")
     (simp_all add: dealStreet_def dealFlop_def dealOne_def split: prod.splits option.splits)

text \<open>
  What a returning \<open>nextStreet\<close> does to the street: on the river the hand goes to
  the showdown, otherwise the room is on the following street.
\<close>

lemma nextStreet_roundName:
  assumes "nextStreet room = Inr room'"
  shows "if roundName room = River then gameStatus room' = Showdown
         else roundName room' = streetAfter (roundName room)"
proof (cases "roundName room = River")
  case True
  with assms have "endHand (sweepBets room) = Inr room'"
    by (subst (asm) nextStreet.simps) simp
  with True show ?thesis by (simp add: endHand_frame(1))
next
  case notRiver: False
  let ?X = "turnBeforeFirst (dealStreet (sweepBets room))"
  have rX: "roundName ?X = streetAfter (roundName room)"
    using notRiver dealStreet_roundName [of "sweepBets room"] by simp
  show ?thesis
  proof (cases "length (filter (\<lambda>p. status p = Active) (players ?X)) < 2")
    case True
    with assms notRiver have "endHand (runOut ?X) = Inr room'"
      by (subst (asm) nextStreet.simps) simp
    from endHand_frame(4) [OF this] rX notRiver show ?thesis by simp
  next
    case False
    with assms notRiver have nt: "nextTurn ?X = Inr room'"
      by (subst (asm) nextStreet.simps) simp
    from False have "filter (\<lambda>p. status p = Active) (players ?X) \<noteq> []"
      by auto
    then have "filter (\<lambda>p. status p = Active) (players room) \<noteq> []"
      by (simp add: sweepBets_def filter_map comp_def)
    from nextTurn_pending_frame [OF nt pending_after_sweep [OF this]] rX notRiver
    show ?thesis by simp
  qed
qed

text \<open>
  C4, as the code has it. On a playing table where the number of dealt hands minus the
  number of folded players is not one: if every player who can still bet has acted and
  has matched the highest bet, \<open>checkRoundEnd\<close> closes the round by running
  \<open>nextStreet\<close>, which puts the room on the following street (on the river: ends the
  hand in a showdown); if some such player has bet less or has not acted,
  \<open>checkRoundEnd\<close> reports the round open and changes nothing.
\<close>

theorem round_closure:
  "gameStatus room = Playing \<Longrightarrow> handsLeft room \<noteq> 1 \<Longrightarrow>
   (allSettled room \<longrightarrow>
      checkRoundEnd room = map_sum id (Pair True) (nextStreet room)
      \<and> (\<forall>room'. nextStreet room = Inr room' \<longrightarrow>
            (if roundName room = River then gameStatus room' = Showdown
             else roundName room' = streetAfter (roundName room))))
   \<and> (someUnsettled room \<longrightarrow> checkRoundEnd room = Inr (False, room))"
proof (intro conjI impI allI)
  assume "gameStatus room = Playing" "handsLeft room \<noteq> 1" "allSettled room"
  then show "checkRoundEnd room = map_sum id (Pair True) (nextStreet room)"
    by (subst checkRoundEnd.simps) (simp add: settled_not_pending)
next
  fix room'
  assume "nextStreet room = Inr room'"
  then show "if roundName room = River then gameStatus room' = Showdown
             else roundName room' = streetAfter (roundName room)"
    by (rule nextStreet_roundName)
next
  assume "gameStatus room = Playing" "handsLeft room \<noteq> 1" "someUnsettled room"
  then show "checkRoundEnd room = Inr (False, room)"
    by (subst checkRoundEnd.simps) (simp add: unsettled_pending)
qed

theorem round_closure_witness:
  "gameStatus preflopTable = Playing \<and> handsLeft preflopTable \<noteq> 1
   \<and> someUnsettled preflopTable
   \<and> checkRoundEnd preflopTable = Inr (False, preflopTable)
   \<and> gameStatus (applyAction flopBetTable 0 \<lparr>action = Call, amount = None\<rparr>) = Playing
   \<and> handsLeft (applyAction flopBetTable 0 \<lparr>action = Call, amount = None\<rparr>) \<noteq> 1
   \<and> allSettled (applyAction flopBetTable 0 \<lparr>action = Call, amount = None\<rparr>)
   \<and> checkRoundEnd (applyAction flopBetTable 0 \<lparr>action = Call, amount = None\<rparr>)
     = map_sum id (Pair True)
         (nextStreet (applyAction flopBetTable 0 \<lparr>action = Call, amount = None\<rparr>))
   \<and> map_sum id roundName
         (nextStreet (applyAction flopBetTable 0 \<lparr>action = Call, amount = None\<rparr>))
     = Inr Turn"
proof -
  let ?called = "applyAction flopBetTable 0 \<lparr>action = Call, amount = None\<rparr>"
  have p: "gameStatus preflopTable = Playing" "handsLeft preflopTable \<noteq> 1"
    "someUnsettled preflopTable"
    by code_simp+
  have c: "gameStatus ?called = Playing" "handsLeft ?called \<noteq> 1" "allSettled ?called"
    by code_simp+
  have t: "map_sum id roundName (nextStreet ?called) = Inr Turn"
    by code_simp
  show ?thesis
    using p c t round_closure [OF p(1) p(2)] round_closure [OF c(1) c(2)]
    by simp
qed

text \<open>
  C4 as stated fails when the hand has collapsed to one player. On \<open>flopBetTable\<close>
  seat 0 folds to the raise: the only player who can still bet has acted and has
  matched the highest bet (his own), yet \<open>checkRoundEnd\<close> ends the hand where it
  stands: the street is still the flop, no card is dealt, and the result differs from
  that of \<open>nextStreet\<close>.
\<close>

theorem round_closure_fold_out:
  "gameStatus (applyAction flopBetTable 0 \<lparr>action = Fold, amount = None\<rparr>) = Playing
   \<and> allSettled (applyAction flopBetTable 0 \<lparr>action = Fold, amount = None\<rparr>)
   \<and> handsLeft (applyAction flopBetTable 0 \<lparr>action = Fold, amount = None\<rparr>) = 1
   \<and> map_sum id (\<lambda>(closed, r). (closed, gameStatus r, roundName r, length (communityCards r)))
       (checkRoundEnd (applyAction flopBetTable 0 \<lparr>action = Fold, amount = None\<rparr>))
     = Inr (True, Showdown, Flop, 3)
   \<and> checkRoundEnd (applyAction flopBetTable 0 \<lparr>action = Fold, amount = None\<rparr>)
     \<noteq> map_sum id (Pair True)
         (nextStreet (applyAction flopBetTable 0 \<lparr>action = Fold, amount = None\<rparr>))"
  by code_simp

section \<open>The showdown\<close>

lemma rankSorted_returns: "cs \<noteq> [] \<Longrightarrow> \<exists>r. rankSorted cs = Inr r"
  by (cases cs) (simp_all add: rankSorted_def Let_def split: option.splits)

lemma evaluateHand_returns:
  "h \<noteq> [] \<Longrightarrow> None \<notin> set h \<Longrightarrow> None \<notin> set c \<Longrightarrow> \<exists>r. evaluateHand h c = Inr r"
proof -
  assume a: "h \<noteq> []" "None \<notin> set h" "None \<notin> set c"
  then have "sort_key (\<lambda>x. - card_value x) (map the (h @ c)) \<noteq> []"
    by (metis Nil_is_append_conv Nil_is_map_conv length_0_conv length_sort)
  from rankSorted_returns [OF this] a show ?thesis
    by (simp add: evaluateHand_def)
qed

lemma hd_sort_key_desc:
  fixes xs :: "(nat \<times> int) list"
  assumes "xs \<noteq> []"
  shows "snd (hd (sort_key (\<lambda>x. - snd x) xs)) = Max (snd ` set xs)"
proof -
  let ?s = "sort_key (\<lambda>x. - snd x) xs"
  from assms have ne: "?s \<noteq> []"
    by (metis length_0_conv length_sort)
  then have mem: "hd ?s \<in> set xs"
    by (metis hd_in_set set_sort)
  have "sorted (map (\<lambda>x. - snd x) ?s)"
    by (rule sorted_sort_key)
  with ne have "\<forall>y \<in> set ?s. - snd (hd ?s) \<le> - snd y"
    by (cases ?s) auto
  then have "\<forall>y \<in> set xs. snd y \<le> snd (hd ?s)"
    by simp
  with mem show ?thesis
    by (intro Max_eqI [symmetric]) auto
qed

lemma length_filter_insort_key:
  "length (filter P (insort_key f x ys)) = length (filter P (x # ys))"
  by (induction ys) simp_all

lemma length_filter_sort_key:
  "length (filter P (sort_key f xs)) = length (filter P xs)"
  by (induction xs) (simp_all add: length_filter_insort_key)

lemma addChips_nth:
  "i < length ps \<Longrightarrow>
   chips (addChips n j ps ! i) = chips (ps ! i) + (if i = j then n else 0)"
  by (simp add: addChips_def nth_list_update)

lemma addChips_length [simp]: "length (addChips n j ps) = length ps"
  by (simp add: addChips_def)

lemma fold_addChips_length [simp]: "length (fold (addChips n) js ps) = length ps"
  by (induction js arbitrary: ps) simp_all

lemma fold_addChips_nth:
  "distinct js \<Longrightarrow> i < length ps \<Longrightarrow>
   chips (fold (addChips n) js ps ! i) = chips (ps ! i) + (if i \<in> set js then n else 0)"
proof (induction js arbitrary: ps)
  case Nil
  then show ?case by simp
next
  case (Cons j js)
  then show ?case by (auto simp: addChips_nth)
qed

lemma zip_with_map: "zip xs (map h xs) = map (\<lambda>x. (x, h x)) xs"
  by (induction xs) simp_all

lemma distinct_fst_sort_key:
  "distinct (map fst xs) \<Longrightarrow> distinct (map fst (filter P (sort_key f xs)))"
  by (auto simp: distinct_map intro: inj_on_subset)

text \<open>\<open>endHand\<close> with a single candidate, and with none or several whose hands evaluate.\<close>

lemma endHand_single:
  assumes "filter (\<lambda>j. isCandidate (players room ! j)) [0..<length (players room)] = [w]"
  shows "endHand room
         = Inr (room\<lparr>gameStatus := Showdown, players := addChips (pot room) w (players room)\<rparr>)"
  using assms by (simp add: endHand_def Let_def)

lemma endHand_several:
  fixes room :: room
  defines "cands \<equiv> filter (\<lambda>j. isCandidate (players room ! j)) [0..<length (players room)]"
  defines "results \<equiv> map (\<lambda>j. (j, scoreOf room (players room ! j))) cands"
  defines "winners \<equiv> filter (\<lambda>x. snd x = snd (hd (sort_key (\<lambda>x. - snd x) results)))
                        (sort_key (\<lambda>x. - snd x) results)"
  assumes several: "length cands \<noteq> 1"
    and returns: "\<forall>j \<in> set cands. \<exists>r. evaluateHand (hand (players room ! j))
                                        (communityCards room) = Inr r"
  shows "endHand room
         = Inr (room\<lparr>gameStatus := Showdown,
                  players := fold (addChips (pot room div int (length winners)))
                               (map fst winners) (players room)\<rparr>)"
proof -
  let ?ev = "\<lambda>j. evaluateHand (hand (players room ! j)) (communityCards room)"
  from returns have noErr: "\<not> list_ex isl (map ?ev cands)"
    by (auto simp: list_ex_iff)
  have "map (\<lambda>e. score (projr e)) (map ?ev cands)
        = map (\<lambda>j. scoreOf room (players room ! j)) cands"
    using returns by (auto simp: scoreOf_def)
  then have res: "zip cands (map (\<lambda>e. score (projr e)) (map ?ev cands)) = results"
    by (simp add: results_def zip_with_map)
  have f: "fold (\<lambda>w. addChips n (fst w)) ws ps = fold (addChips n) (map fst ws) ps"
    for n ws and ps :: "player list"
    by (simp add: fold_map comp_def)
  show ?thesis
    using several noErr res
    by (simp add: endHand_def Let_def cands_def [symmetric] winners_def f)
qed
text \<open>
  C8. On a room whose hands hold no or two cards and whose cards at the showdown are
  all defined, \<open>endHand\<close> returns, and every player receives exactly the share of the
  specification: the whole pot for a lone candidate; with no or several candidates,
  every candidate is scored by \<open>evaluateHand\<close>, each candidate with the maximal score
  receives the pot divided by the number of such candidates, rounded down, and every
  other player receives nothing.
\<close>

theorem showdown_payout:
  assumes i: "i < length (players room)"
    and dealt: "handsDealt room"
    and defined: "cardsDefined room"
  shows "\<exists>room'. endHand room = Inr room'
           \<and> length (players room') = length (players room)
           \<and> chips (players room' ! i) = chips (players room ! i) + showdownShare room i"
proof -
  let ?ps = "players room"
  let ?g = "\<lambda>j. scoreOf room (?ps ! j)"
  define cands where "cands = filter (\<lambda>j. isCandidate (?ps ! j)) [0..<length ?ps]"
  have same: "isCandidate (?ps ! j) = holdsTwoCards (?ps ! j)" if "j < length ?ps" for j
  proof -
    from that have "?ps ! j \<in> set ?ps" by simp
    with dealt have "length (hand (?ps ! j)) = 0 \<or> length (hand (?ps ! j)) = 2"
      by (simp add: handsDealt_def list_all_iff)
    then show ?thesis by (auto simp: isCandidate_def holdsTwoCards_def)
  qed
  have spec_cands: "filter (\<lambda>j. holdsTwoCards (?ps ! j)) [0..<length ?ps] = cands"
    unfolding cands_def by (rule filter_cong) (simp_all add: same)
  have mem: "j \<in> set cands \<longleftrightarrow> j < length ?ps \<and> holdsTwoCards (?ps ! j)" for j
    by (auto simp: cands_def same)
  have dist: "distinct cands"
    by (simp add: cands_def)
  show ?thesis
  proof (cases "length cands = 1")
    case True
    then obtain w where w: "cands = [w]"
      by (cases cands) auto
    then have e: "endHand room
        = Inr (room\<lparr>gameStatus := Showdown, players := addChips (pot room) w ?ps\<rparr>)"
      unfolding cands_def by (rule endHand_single)
    have "holdsTwoCards (?ps ! i) \<longleftrightarrow> i = w"
      using mem [of i] i w by simp
    then have "showdownShare room i = (if i = w then pot room else 0)"
      using True by (simp add: showdownShare_def Let_def spec_cands)
    with e i show ?thesis
      by (simp add: addChips_nth)
  next
    case several: False
    define results where "results = map (\<lambda>j. (j, ?g j)) cands"
    define sorted where "sorted = sort_key (\<lambda>x. - snd x) results"
    define winners where "winners = filter (\<lambda>x. snd x = snd (hd sorted)) sorted"
    define top where "top = Max (set (map ?g cands))"
    have returns: "\<forall>j \<in> set cands. \<exists>r. evaluateHand (hand (?ps ! j)) (communityCards room) = Inr r"
    proof
      fix j
      assume "j \<in> set cands"
      with mem have j: "j < length ?ps" "holdsTwoCards (?ps ! j)" by simp_all
      then have "?ps ! j \<in> set (filter holdsTwoCards ?ps)" by simp
      with defined have "None \<notin> set (hand (?ps ! j))" "None \<notin> set (communityCards room)"
        by (simp_all add: cardsDefined_def list_all_iff)
      moreover from j have "hand (?ps ! j) \<noteq> []"
        by (auto simp: holdsTwoCards_def)
      ultimately show "\<exists>r. evaluateHand (hand (?ps ! j)) (communityCards room) = Inr r"
        by (simp add: evaluateHand_returns)
    qed
    have e: "endHand room
        = Inr (room\<lparr>gameStatus := Showdown,
                 players := fold (addChips (pot room div int (length winners)))
                              (map fst winners) ?ps\<rparr>)"
      using endHand_several [of room] several returns
      unfolding cands_def results_def sorted_def winners_def by simp
    have "map fst results = cands"
      by (simp add: results_def comp_def)
    with dist have dw: "distinct (map fst winners)"
      unfolding winners_def sorted_def by (simp add: distinct_fst_sort_key)
    have chips_after: "chips (fold (addChips (pot room div int (length winners)))
                               (map fst winners) ?ps ! i)
        = chips (?ps ! i)
          + (if i \<in> set (map fst winners) then pot room div int (length winners) else 0)"
      using dw i by (rule fold_addChips_nth)
    have share: "(if i \<in> set (map fst winners) then pot room div int (length winners) else 0)
        = showdownShare room i"
    proof (cases "cands = []")
      case True
      then have "winners = []" "\<not> holdsTwoCards (?ps ! i)"
        using mem [of i] i by (simp_all add: winners_def sorted_def results_def)
      then show ?thesis by (simp add: showdownShare_def Let_def)
    next
      case False
      then have "results \<noteq> []" by (simp add: results_def)
      from hd_sort_key_desc [OF this] have "snd (hd sorted) = Max (snd ` set results)"
        by (simp add: sorted_def)
      also have "snd ` set results = set (map ?g cands)"
        by (auto simp: results_def image_iff)
      finally have hd_top: "snd (hd sorted) = top"
        by (simp add: top_def)
      have wset: "set (map fst winners) = {j \<in> set cands. ?g j = top}"
        by (auto simp: winners_def sorted_def results_def hd_top [unfolded sorted_def results_def]
            image_iff)
      have "length winners = length (filter (\<lambda>x. snd x = top) results)"
        by (simp add: winners_def hd_top) (simp add: sorted_def length_filter_sort_key)
      also have "\<dots> = length (filter (\<lambda>j. ?g j = top) cands)"
        by (simp add: results_def filter_map comp_def)
      finally have wlen: "length winners = length (filter (\<lambda>j. ?g j = top) cands)" .
      have "i \<in> set (map fst winners) \<longleftrightarrow> holdsTwoCards (?ps ! i) \<and> ?g i = top"
        using wset mem [of i] i by auto
      moreover have "showdownShare room i
          = (if \<not> holdsTwoCards (?ps ! i) then 0
             else if length cands = 1 then pot room
             else if ?g i = top
                  then pot room div int (length (filter (\<lambda>j. ?g j = top) cands))
                  else 0)"
        unfolding showdownShare_def Let_def spec_cands top_def ..
      ultimately show ?thesis
        using several by (simp add: wlen)
    qed
    from e chips_after share show ?thesis by simp
  qed
qed

theorem showdown_payout_witness:
  "0 < length (players riverTable) \<and> handsDealt riverTable \<and> cardsDefined riverTable
   \<and> scoreOf riverTable (players riverTable ! 0) = 213
   \<and> scoreOf riverTable (players riverTable ! 1) = 213
   \<and> showdownShare riverTable 0 = 2
   \<and> (\<exists>room'. endHand riverTable = Inr room' \<and> length (players room') = 5
          \<and> chips (players room' ! 0) = 102)"
proof -
  have i: "0 < length (players riverTable)"
    by (simp add: riverTable_def)
  have dealt: "handsDealt riverTable" and defined: "cardsDefined riverTable"
    by code_simp+
  have scores: "scoreOf riverTable (players riverTable ! 0) = 213"
    "scoreOf riverTable (players riverTable ! 1) = 213"
    by code_simp+
  have share: "showdownShare riverTable 0 = 2"
    by code_simp
  have before: "chips (players riverTable ! 0) = 100" "length (players riverTable) = 5"
    by (simp_all add: riverTable_def)
  from showdown_payout [OF i dealt defined] share before
  have "\<exists>room'. endHand riverTable = Inr room' \<and> length (players room') = 5
          \<and> chips (players room' ! 0) = 102"
    by simp
  with i dealt defined scores share show ?thesis
    by simp
qed

section \<open>The quorum for a start\<close>

lemma length_filter_positions:
  "length (filter (\<lambda>i. P (ps ! i)) [0..<length ps]) = length (filter P ps)"
proof -
  have "filter P ps = filter P (map (nth ps) [0..<length ps])"
    by (simp add: map_nth)
  also have "\<dots> = map (nth ps) (filter (\<lambda>i. P (ps ! i)) [0..<length ps])"
    by (simp add: filter_map comp_def)
  finally show ?thesis by simp
qed

lemma startGame_gameStatus:
  "gameStatus (startGame room shuffled)
   = (if length (filter canPlay (players room)) < 2 then Waiting else Playing)"
proof -
  have n: "length (filter (\<lambda>i. 0 < chips (players room ! i)
                               \<and> status (players room ! i) \<noteq> SittingOut)
                     [0..<length (players room)])
           = length (filter canPlay (players room))"
    using length_filter_positions [of canPlay "players room"] by (simp add: canPlay_def)
  show ?thesis
    by (simp add: startGame_def Let_def n split: prod.splits)
qed

lemma canPlay_after_reset:
  "length (playersWithChips (room\<lparr>players := map resetPlayer (players room), pot := 0,
                                    communityCards := [], gameStatus := Waiting\<rparr>))
   = length (filter canPlay (players room))"
  "length (filter canPlay (map resetPlayer (players room)))
   = length (filter canPlay (players room))"
proof -
  have a: "(0 < chips (resetPlayer p)
            \<and> (status (resetPlayer p) = PWaiting \<or> status (resetPlayer p) = Active
                \<or> status (resetPlayer p) = Ready)) = canPlay p" for p
    by (auto simp: resetPlayer_def canPlay_def Let_def)
  have b: "canPlay (resetPlayer p) = canPlay p" for p
    by (auto simp: resetPlayer_def canPlay_def Let_def)
  show "length (playersWithChips (room\<lparr>players := map resetPlayer (players room), pot := 0,
                                    communityCards := [], gameStatus := Waiting\<rparr>))
        = length (filter canPlay (players room))"
    by (simp add: playersWithChips_def filter_map comp_def a conj_commute)
  show "length (filter canPlay (map resetPlayer (players room)))
        = length (filter canPlay (players room))"
    by (simp add: filter_map comp_def b)
qed

lemma canPlay_resetPlayer: "canPlay \<circ> resetPlayer = canPlay"
  by (rule ext) (auto simp: resetPlayer_def canPlay_def Let_def)

text \<open>
  What each of the two start paths tests. The handler of the start request counts the
  seated players, and \<open>startGame\<close> then wants two players with chips who are not
  sitting out; the check after a showdown counts the players with chips who are not
  sitting out. In every other case the table is waiting afterwards.
\<close>

lemma start_quorum:
  "(gameStatus room = Waiting \<longrightarrow>
      (gameStatus (startGameRequest room shuffled) = Playing
       \<longleftrightarrow> minPlayers room \<le> int (length (players room))
           \<and> 2 \<le> length (filter canPlay (players room)))
      \<and> (gameStatus (startGameRequest room shuffled) = Playing
          \<or> gameStatus (startGameRequest room shuffled) = Waiting)
      \<and> (int (length (players room)) < minPlayers room \<longrightarrow>
            startGameRequest room shuffled = room))
   \<and> (gameStatus (startNextHandOrWait room shuffled) = Playing
       \<longleftrightarrow> minPlayers room \<le> int (length (filter canPlay (players room)))
           \<and> 2 \<le> length (filter canPlay (players room)))
   \<and> (gameStatus (startNextHandOrWait room shuffled) = Playing
       \<or> gameStatus (startNextHandOrWait room shuffled) = Waiting)"
proof -
  have request: "gameStatus room = Waiting \<Longrightarrow>
      gameStatus (startGameRequest room shuffled)
      = (if minPlayers room \<le> int (length (players room))
            \<and> 2 \<le> length (filter canPlay (players room))
         then Playing else Waiting)"
    by (simp add: startGameRequest_def startGame_gameStatus)
  have reject: "int (length (players room)) < minPlayers room \<Longrightarrow>
      startGameRequest room shuffled = room"
    by (simp add: startGameRequest_def)
  have auto_start: "gameStatus (startNextHandOrWait room shuffled)
      = (if minPlayers room \<le> int (length (filter canPlay (players room)))
            \<and> 2 \<le> length (filter canPlay (players room))
         then Playing else Waiting)"
    by (simp add: startNextHandOrWait_def Let_def startGame_gameStatus canPlay_after_reset
          canPlay_resetPlayer)
  show ?thesis
    using request reject auto_start by simp
qed

lemma start_quorum_on_lobby:
  "gameStatus lobby = Waiting
   \<and> minPlayers lobby \<le> int (length (players lobby))
   \<and> 2 \<le> length (filter canPlay (players lobby))
   \<and> gameStatus (startGameRequest lobby freshDeck) = Playing
   \<and> \<not> minPlayers lobby \<le> int (length (filter canPlay (players lobby)))
   \<and> gameStatus (startNextHandOrWait lobby freshDeck) = Waiting"
proof -
  have a: "gameStatus lobby = Waiting" "minPlayers lobby \<le> int (length (players lobby))"
    "2 \<le> length (filter canPlay (players lobby))"
    "\<not> minPlayers lobby \<le> int (length (filter canPlay (players lobby)))"
    by code_simp+
  show ?thesis
    using a start_quorum [of lobby freshDeck] by auto
qed

text \<open>
  C9 at its failing input. On \<open>lobby\<close> five players are seated but only two of them
  have chips, fewer than \<open>minPlayers\<close>. The start request begins a hand, with two
  players in it; the check after a showdown, which counts the players with chips,
  leaves the same table waiting.
\<close>

theorem start_request_below_chip_quorum:
  "gameStatus lobby = Waiting
   \<and> minPlayers lobby = 5
   \<and> length (players lobby) = 5
   \<and> length (filter (\<lambda>p. 0 < chips p) (players lobby)) = 2
   \<and> gameStatus (startGameRequest lobby freshDeck) = Playing
   \<and> map status (players (startGameRequest lobby freshDeck))
     = [Active, Active, Busted, Busted, Busted]
   \<and> gameStatus (startNextHandOrWait lobby freshDeck) = Waiting"
  by code_simp

section \<open>The first actor of a hand\<close>

text \<open>
  C2 at its failing input. Five players are seated, two of them have chips, seat 0 a
  single one. The start request begins a hand of two players: seat 1 gets the button and
  the big blind, seat 0 posts its last chip as the small blind and is made the first
  actor although it has no chips left (and is still active).
\<close>

theorem first_actor_without_chips:
  "gameStatus shortStackLobby = Waiting
   \<and> map chips (players shortStackLobby) = [1, 200, 0, 0, 0]
   \<and> gameStatus (startGameRequest shortStackLobby freshDeck) = Playing
   \<and> currentTurnIndex (startGameRequest shortStackLobby freshDeck) = 0
   \<and> map seatIndex (players (startGameRequest shortStackLobby freshDeck)) = [0, 1, 2, 3, 4]
   \<and> map chips (players (startGameRequest shortStackLobby freshDeck)) = [0, 198, 0, 0, 0]
   \<and> map currentBet (players (startGameRequest shortStackLobby freshDeck)) = [1, 2, 0, 0, 0]
   \<and> status (players (startGameRequest shortStackLobby freshDeck) ! 0) = Active"
  by code_simp

section \<open>A straight flush among six suited cards\<close>

text \<open>
  C3 at its failing input. Ace and nine of spades with eight, seven, six and five of
  spades and the two of diamonds hold the straight flush from the nine down, but
  \<open>isFlush\<close> hands only the five highest spades to \<open>isStraight\<close>: the hand is scored
  as a flush, 614, below the 802 of four twos.
\<close>

theorem straight_flush_scored_as_flush:
  "realizesStraightFlush
     [mkCard RA Spades, mkCard R9 Spades, mkCard R8 Spades, mkCard R7 Spades,
      mkCard R6 Spades, mkCard R5 Spades, mkCard R2 Diamonds]
   \<and> evaluateHand [Some (mkCard RA Spades), Some (mkCard R9 Spades)]
       [Some (mkCard R8 Spades), Some (mkCard R7 Spades), Some (mkCard R6 Spades),
        Some (mkCard R5 Spades), Some (mkCard R2 Diamonds)]
     = Inr \<lparr>score = 614, name = ''Flush'', tieBreaker = Some [14, 9, 8, 7, 6]\<rparr>
   \<and> realizesFourOfAKind
     [mkCard R2 Spades, mkCard R2 Hearts, mkCard R2 Diamonds, mkCard R2 Clubs,
      mkCard R3 Spades, mkCard R4 Hearts, mkCard R5 Diamonds]
   \<and> evaluateHand [Some (mkCard R2 Spades), Some (mkCard R2 Hearts)]
       [Some (mkCard R2 Diamonds), Some (mkCard R2 Clubs), Some (mkCard R3 Spades),
        Some (mkCard R4 Hearts), Some (mkCard R5 Diamonds)]
     = Inr \<lparr>score = 802, name = ''Four of a Kind (2s)'', tieBreaker = None\<rparr>"
  by code_simp

section \<open>The tiers of the evaluator\<close>

lemma RANK_VALUE_range: "2 \<le> RANK_VALUE r \<and> RANK_VALUE r \<le> 14"
  by (cases r) simp_all

lemma set_RANKS: "set RANKS = UNIV"
proof -
  have "r \<in> set RANKS" for r
    by (cases r) (simp_all add: RANKS_def)
  then show ?thesis by auto
qed

lemma insertionOrder_set [simp]: "set (insertionOrder xs) = set xs"
  by (induction xs) auto

lemma insertionOrder_distinct [simp]: "distinct (insertionOrder xs)"
  by (induction xs) auto

lemma countKeys_set [simp]: "set (countKeys cs) = rank ` set cs"
  by (auto simp: countKeys_def Let_def)

lemma countKeys_distinct [simp]: "distinct (countKeys cs)"
  by (auto simp: countKeys_def Let_def)

lemma length_filter_le_one:
  assumes "distinct xs" and "\<And>x y. x \<in> set xs \<Longrightarrow> y \<in> set xs \<Longrightarrow> P x \<Longrightarrow> P y \<Longrightarrow> x = y"
  shows "length (filter P xs) \<le> 1"
  using assms
proof (induction xs)
  case Nil
  then show ?case by simp
next
  case (Cons a xs)
  show ?case
  proof (cases "P a")
    case True
    have "filter P xs = []"
    proof (rule ccontr)
      assume "filter P xs \<noteq> []"
      then obtain y where y: "y \<in> set xs" "P y"
        by (metis filter_False)
      with Cons.prems(2) [of a y] True have "a = y" by simp
      with y Cons.prems(1) show False by simp
    qed
    with True show ?thesis by simp
  next
    case False
    with Cons show ?thesis by simp
  qed
qed

lemma length_filter_split:
  "length (filter P xs)
   = length (filter (\<lambda>x. P x \<and> Q x) xs) + length (filter (\<lambda>x. P x \<and> \<not> Q x) xs)"
  by (induction xs) auto

lemma length_filter_weaken:
  "length (filter (\<lambda>x. P x \<and> Q x) xs) \<le> length (filter Q xs)"
  by (induction xs) auto

text \<open>Distinct cards of the deck of one rank have different suits.\<close>

lemma one_card_per_rank_and_suit:
  assumes "distinct cs" and "list_all wellFormed cs"
  shows "length (filter (\<lambda>c. suit c = s \<and> rank c = r) cs) \<le> 1"
proof (rule length_filter_le_one [OF assms(1)])
  fix x y
  assume "x \<in> set cs" "y \<in> set cs" "suit x = s \<and> rank x = r" "suit y = s \<and> rank y = r"
  with assms(2) show "x = y"
    by (auto simp: list_all_iff wellFormed_def)
qed

lemma getCount_compl:
  "length (filter (\<lambda>c. rank c \<noteq> r) cs) + getCount cs r = length cs"
  using sum_length_filter_compl [of "\<lambda>c. rank c = r" cs] by (simp add: getCount_def)

lemma suit_count_with_quads:
  assumes "sevenCards cs" and "getCount cs r = 4"
  shows "length (filter (\<lambda>c. suit c = s) cs) \<le> 4"
proof -
  from assms(1) have d: "distinct cs" "list_all wellFormed cs" "length cs = 7"
    by (simp_all add: sevenCards_def)
  have "length (filter (\<lambda>c. suit c = s) cs)
        = length (filter (\<lambda>c. suit c = s \<and> rank c = r) cs)
          + length (filter (\<lambda>c. suit c = s \<and> rank c \<noteq> r) cs)"
    by (rule length_filter_split)
  moreover have "length (filter (\<lambda>c. suit c = s \<and> rank c = r) cs) \<le> 1"
    by (rule one_card_per_rank_and_suit [OF d(1) d(2)])
  moreover have "length (filter (\<lambda>c. suit c = s \<and> rank c \<noteq> r) cs)
                 \<le> length (filter (\<lambda>c. rank c \<noteq> r) cs)"
    by (rule length_filter_weaken)
  moreover have "length (filter (\<lambda>c. rank c \<noteq> r) cs) = 3"
    using getCount_compl [of r cs] assms(2) d(3) by simp
  ultimately show ?thesis by simp
qed

lemma suit_count_with_full_house:
  assumes "sevenCards cs" and "getCount cs r = 3" and "q \<noteq> r" and "2 \<le> getCount cs q"
  shows "length (filter (\<lambda>c. suit c = s) cs) \<le> 4"
proof -
  from assms(1) have d: "distinct cs" "list_all wellFormed cs" "length cs = 7"
    by (simp_all add: sevenCards_def)
  let ?rest = "filter (\<lambda>c. rank c \<noteq> r) cs"
  have a: "length (filter (\<lambda>c. suit c = s) cs)
        = length (filter (\<lambda>c. suit c = s \<and> rank c = r) cs)
          + length (filter (\<lambda>c. suit c = s \<and> rank c \<noteq> r) cs)"
    by (rule length_filter_split)
  have b: "length (filter (\<lambda>c. suit c = s \<and> rank c = r) cs) \<le> 1"
    by (rule one_card_per_rank_and_suit [OF d(1) d(2)])
  have "length (filter (\<lambda>c. suit c = s \<and> rank c \<noteq> r) cs)
        = length (filter (\<lambda>c. (suit c = s \<and> rank c \<noteq> r) \<and> rank c = q) cs)
          + length (filter (\<lambda>c. (suit c = s \<and> rank c \<noteq> r) \<and> rank c \<noteq> q) cs)"
    by (rule length_filter_split)
  moreover have "length (filter (\<lambda>c. (suit c = s \<and> rank c \<noteq> r) \<and> rank c = q) cs)
                 \<le> length (filter (\<lambda>c. suit c = s \<and> rank c = q) cs)"
    by (induction cs) auto
  moreover have "length (filter (\<lambda>c. suit c = s \<and> rank c = q) cs) \<le> 1"
    by (rule one_card_per_rank_and_suit [OF d(1) d(2)])
  moreover have "length (filter (\<lambda>c. (suit c = s \<and> rank c \<noteq> r) \<and> rank c \<noteq> q) cs)
                 \<le> length (filter (\<lambda>c. rank c \<noteq> r \<and> rank c \<noteq> q) cs)"
    by (induction cs) auto
  moreover have "length (filter (\<lambda>c. rank c \<noteq> r \<and> rank c \<noteq> q) cs) + getCount cs r
                 + getCount cs q = length cs"
    using assms(3) unfolding getCount_def by (induction cs) auto
  ultimately have "length (filter (\<lambda>c. suit c = s \<and> rank c \<noteq> r) cs) \<le> 3"
    using assms(2,4) d(3) by simp
  with a b show ?thesis by simp
qed

lemma isFlush_None:
  assumes "\<And>s. length (filter (\<lambda>c. suit c = s) cs) \<le> 4"
  shows "isFlush (sort_key f cs) = None"
proof -
  have "\<not> 5 \<le> length (filter (\<lambda>c. suit c = s) (sort_key f cs))" for s
    using assms [of s] by (simp add: length_filter_sort_key)
  then have "find (\<lambda>s. 5 \<le> length (filter (\<lambda>c. suit c = s) (sort_key f cs)))
               (insertionOrder (map suit (sort_key f cs))) = None"
    by (simp add: find_None_iff)
  then show ?thesis by (simp add: isFlush_def)
qed

lemma getCount_sort_key [simp]: "getCount (sort_key f cs) r = getCount cs r"
  by (simp add: getCount_def length_filter_sort_key)

lemma evaluateHand_defined:
  "evaluateHand (map Some h) (map Some c)
   = rankSorted (sort_key (\<lambda>x. - card_value x) (h @ c))"
  by (auto simp: evaluateHand_def Let_def comp_def)
lemma in_set_nonempty: "x \<in> set xs \<Longrightarrow> xs \<noteq> []"
  by auto

lemma getCount_positive: "0 < getCount cs r \<Longrightarrow> r \<in> rank ` set cs"
  unfolding getCount_def by (induction cs) (auto split: if_splits)

lemma Max_RANK_VALUE_range:
  assumes "ts \<noteq> []"
  shows "2 \<le> Max (set (map RANK_VALUE ts)) \<and> Max (set (map RANK_VALUE ts)) \<le> 14"
proof -
  from assms have "Max (set (map RANK_VALUE ts)) \<in> set (map RANK_VALUE ts)"
    by (intro Max_in) simp_all
  then obtain t where "Max (set (map RANK_VALUE ts)) = RANK_VALUE t"
    by auto
  with RANK_VALUE_range [of t] show ?thesis by simp
qed

text \<open>Seven cards of the deck with four of one rank score in the tier 800.\<close>

lemma quads_score:
  assumes seven: "sevenCards cs" and four: "getCount cs r = 4"
  shows "\<exists>res. rankSorted (sort_key f cs) = Inr res \<and> 802 \<le> score res \<and> score res \<le> 814"
proof -
  let ?s = "sort_key f cs"
  let ?quads = "filter (\<lambda>k. getCount ?s k = 4) (countKeys ?s)"
  have noFlush: "isFlush ?s = None"
    using suit_count_with_quads [OF seven four] by (rule isFlush_None)
  from four have "r \<in> rank ` set cs"
    by (intro getCount_positive) simp
  with four have "r \<in> set ?quads"
    by simp
  then have ne: "?quads \<noteq> []"
    by (rule in_set_nonempty)
  then have "rankSorted ?s
             = Inr \<lparr>score = 800 + RANK_VALUE (hd ?quads),
                    name = ''Four of a Kind ('' @ rankString (hd ?quads) @ ''s)'',
                    tieBreaker = None\<rparr>"
    by (simp add: rankSorted_def noFlush Let_def)
  with RANK_VALUE_range [of "hd ?quads"] show ?thesis
    by simp
qed

text \<open>Seven cards of the deck that hold a full house score in the tier 700.\<close>

lemma full_house_score:
  assumes seven: "sevenCards cs" and full: "realizesFullHouse cs"
  shows "\<exists>res. rankSorted (sort_key f cs) = Inr res \<and> 702 \<le> score res \<and> score res \<le> 714"
proof -
  let ?s = "sort_key f cs"
  let ?keys = "countKeys ?s"
  let ?quads = "filter (\<lambda>k. getCount cs k = 4) ?keys"
  let ?trips = "filter (\<lambda>k. getCount cs k = 3) ?keys"
  let ?pairs = "filter (\<lambda>k. getCount cs k = 2) ?keys"
  from full have noFour: "getCount cs k \<noteq> 4" for k
    by (simp add: realizesFullHouse_def realizesFourOfAKind_def list_ex_iff set_RANKS)
  from full obtain r q where r: "getCount cs r = 3" and q: "q \<noteq> r" "2 \<le> getCount cs q"
    by (auto simp: realizesFullHouse_def list_ex_iff)
  have noFlush: "isFlush ?s = None"
    using suit_count_with_full_house [OF seven r q] by (rule isFlush_None)
  have noQuads: "?quads = []"
    by (simp add: noFour)
  from r have "r \<in> rank ` set cs"
    by (intro getCount_positive) simp
  with r have rT: "r \<in> set ?trips"
    by simp
  then have tne: "?trips \<noteq> []"
    by (rule in_set_nonempty)
  from q(2) have qk: "q \<in> rank ` set cs"
    by (intro getCount_positive) simp
  from seven have "length cs = 7"
    by (simp add: sevenCards_def)
  with getCount_compl [of r cs] r have "length (filter (\<lambda>c. rank c \<noteq> r) cs) = 4"
    by simp
  moreover have "getCount cs q \<le> length (filter (\<lambda>c. rank c \<noteq> r) cs)"
    using q(1) unfolding getCount_def by (induction cs) auto
  ultimately have "getCount cs q = 2 \<or> getCount cs q = 3"
    using q(2) noFour [of q] by linarith
  then have second: "2 \<le> length ?trips \<or> 0 < length ?pairs"
  proof
    assume "getCount cs q = 2"
    with qk have "q \<in> set ?pairs" by simp
    then have "?pairs \<noteq> []" by (rule in_set_nonempty)
    then show ?thesis by simp
  next
    assume "getCount cs q = 3"
    with qk have "q \<in> set ?trips" by simp
    with rT q(1) have "{q, r} \<subseteq> set ?trips" "card {q, r} = 2"
      by simp_all
    then have "2 \<le> card (set ?trips)"
      by (metis card_mono List.finite_set)
    also have "card (set ?trips) \<le> length ?trips"
      by (rule card_length)
    finally show ?thesis by simp
  qed
  from tne second have "rankSorted ?s
      = Inr \<lparr>score = 700 + Max (set (map RANK_VALUE ?trips)), name = ''Full House'',
             tieBreaker = None\<rparr>"
    by (simp add: rankSorted_def noFlush Let_def noQuads)
  with Max_RANK_VALUE_range [OF tne] show ?thesis
    by simp
qed
lemma straightLoop_member:
  "straightLoop streak vs = Some h \<Longrightarrow> h \<in> set streak \<union> set vs"
proof (induction vs arbitrary: streak)
  case Nil
  then show ?case by simp
next
  case (Cons v vs)
  define nxt where "nxt = (if streak = [] \<or> last streak = v + 1 then streak @ [v] else [v])"
  have sub: "set nxt \<subseteq> set streak \<union> {v}" and ne: "nxt \<noteq> []"
    by (auto simp: nxt_def)
  have step: "(if length nxt = 5 then Some (hd nxt) else straightLoop nxt vs) = Some h"
    using Cons.prems unfolding nxt_def by (simp only: straightLoop.simps Let_def)
  have "h \<in> set nxt \<union> set vs"
  proof (cases "length nxt = 5")
    case True
    with step have "h = hd nxt" by simp
    with hd_in_set [OF ne] show ?thesis by simp
  next
    case False
    with step have "straightLoop nxt vs = Some h" by simp
    then show ?thesis by (rule Cons.IH)
  qed
  with sub show ?case by auto
qed

lemma isStraight_member:
  "isStraight cs = Some h \<Longrightarrow> h = 1 \<or> h \<in> card_value ` set cs"
  using straightLoop_member [of "[]" _ h]
  by (fastforce simp: isStraight_def Let_def split: if_splits)

lemma isFlush_subset: "isFlush cs = Some f \<Longrightarrow> set f \<subseteq> set cs"
  by (auto simp: isFlush_def split: option.splits dest: in_set_takeD)

text \<open>A result named Straight Flush comes from the first branch and scores above 900.\<close>

lemma straight_flush_score:
  assumes wf: "list_all wellFormed cs"
    and res: "rankSorted (sort_key f cs) = Inr res" and named: "name res = ''Straight Flush''"
  shows "901 \<le> score res"
proof -
  let ?s = "sort_key f cs"
  from res named obtain fl v where fl: "isFlush ?s = Some fl" and v: "isStraight fl = Some v"
    and sc: "score res = 900 + v"
    by (auto simp: rankSorted_def Let_def truthy_def split: option.splits if_splits list.splits)
  from isStraight_member [OF v] isFlush_subset [OF fl]
  have "v = 1 \<or> v \<in> card_value ` set cs"
    by auto
  moreover have "2 \<le> card_value x" if "x \<in> set cs" for x
    using that wf RANK_VALUE_range [of "rank x"] by (simp add: list_all_iff wellFormed_def)
  ultimately have "1 \<le> v"
    by force
  with sc show ?thesis by simp
qed

text \<open>
  For inputs of seven distinct cards of the deck, every input that holds four of a
  kind is scored strictly above every input that holds a full house.
\<close>

theorem four_of_a_kind_beats_full_house:
  assumes "sevenCards (h @ c)" and "realizesFourOfAKind (h @ c)"
    and "sevenCards (h' @ c')" and "realizesFullHouse (h' @ c')"
  shows "\<exists>res res'. evaluateHand (map Some h) (map Some c) = Inr res
           \<and> evaluateHand (map Some h') (map Some c') = Inr res'
           \<and> score res' < score res"
proof -
  from assms(2) obtain r where "getCount (h @ c) r = 4"
    by (auto simp: realizesFourOfAKind_def list_ex_iff)
  from quads_score [OF assms(1) this, of "\<lambda>x. - card_value x"]
  obtain res where a: "evaluateHand (map Some h) (map Some c) = Inr res" "802 \<le> score res"
    by (auto simp: evaluateHand_defined)
  from full_house_score [OF assms(3,4), of "\<lambda>x. - card_value x"]
  obtain res' where b: "evaluateHand (map Some h') (map Some c') = Inr res'" "score res' \<le> 714"
    by (auto simp: evaluateHand_defined)
  from a b show ?thesis by auto
qed

theorem four_of_a_kind_beats_full_house_witness:
  "sevenCards ([mkCard R2 Spades, mkCard R2 Hearts]
               @ [mkCard R2 Diamonds, mkCard R2 Clubs, mkCard R3 Spades, mkCard R4 Hearts,
                  mkCard R5 Diamonds])
   \<and> realizesFourOfAKind ([mkCard R2 Spades, mkCard R2 Hearts]
               @ [mkCard R2 Diamonds, mkCard R2 Clubs, mkCard R3 Spades, mkCard R4 Hearts,
                  mkCard R5 Diamonds])
   \<and> sevenCards ([mkCard RA Spades, mkCard RA Hearts]
               @ [mkCard RA Diamonds, mkCard RK Clubs, mkCard RK Spades, mkCard RQ Hearts,
                  mkCard RJ Diamonds])
   \<and> realizesFullHouse ([mkCard RA Spades, mkCard RA Hearts]
               @ [mkCard RA Diamonds, mkCard RK Clubs, mkCard RK Spades, mkCard RQ Hearts,
                  mkCard RJ Diamonds])
   \<and> (\<exists>res res'.
         evaluateHand [Some (mkCard R2 Spades), Some (mkCard R2 Hearts)]
           [Some (mkCard R2 Diamonds), Some (mkCard R2 Clubs), Some (mkCard R3 Spades),
            Some (mkCard R4 Hearts), Some (mkCard R5 Diamonds)] = Inr res
         \<and> evaluateHand [Some (mkCard RA Spades), Some (mkCard RA Hearts)]
           [Some (mkCard RA Diamonds), Some (mkCard RK Clubs), Some (mkCard RK Spades),
            Some (mkCard RQ Hearts), Some (mkCard RJ Diamonds)] = Inr res'
         \<and> score res' < score res)"
proof -
  let ?h = "[mkCard R2 Spades, mkCard R2 Hearts]"
  let ?c = "[mkCard R2 Diamonds, mkCard R2 Clubs, mkCard R3 Spades, mkCard R4 Hearts,
             mkCard R5 Diamonds]"
  let ?h' = "[mkCard RA Spades, mkCard RA Hearts]"
  let ?c' = "[mkCard RA Diamonds, mkCard RK Clubs, mkCard RK Spades, mkCard RQ Hearts,
              mkCard RJ Diamonds]"
  have a: "sevenCards (?h @ ?c)" "realizesFourOfAKind (?h @ ?c)"
    "sevenCards (?h' @ ?c')" "realizesFullHouse (?h' @ ?c')"
    by code_simp+
  from four_of_a_kind_beats_full_house [OF a] a show ?thesis
    by simp
qed

text \<open>
  Every input of cards of the deck whose result \<open>evaluateHand\<close> names Straight Flush
  is scored strictly above every input of seven distinct cards that holds four of a
  kind.
\<close>

theorem named_straight_flush_beats_four_of_a_kind:
  assumes "list_all wellFormed (h @ c)"
    and "evaluateHand (map Some h) (map Some c) = Inr res"
    and "name res = ''Straight Flush''"
    and "sevenCards (h' @ c')" and "realizesFourOfAKind (h' @ c')"
  shows "\<exists>res'. evaluateHand (map Some h') (map Some c') = Inr res' \<and> score res' < score res"
proof -
  from assms(2) have "rankSorted (sort_key (\<lambda>x. - card_value x) (h @ c)) = Inr res"
    by (simp add: evaluateHand_defined)
  from straight_flush_score [OF assms(1) this assms(3)] have high: "901 \<le> score res" .
  from assms(5) obtain r where "getCount (h' @ c') r = 4"
    by (auto simp: realizesFourOfAKind_def list_ex_iff)
  from quads_score [OF assms(4) this, of "\<lambda>x. - card_value x"]
  obtain res' where "evaluateHand (map Some h') (map Some c') = Inr res'" "score res' \<le> 814"
    by (auto simp: evaluateHand_defined)
  with high show ?thesis by auto
qed

theorem named_straight_flush_beats_four_of_a_kind_witness:
  "list_all wellFormed ([mkCard RA Spades, mkCard R2 Spades]
      @ [mkCard R3 Spades, mkCard R4 Spades, mkCard R5 Spades, mkCard R9 Diamonds,
         mkCard RK Clubs])
   \<and> map_sum id name
       (evaluateHand [Some (mkCard RA Spades), Some (mkCard R2 Spades)]
          [Some (mkCard R3 Spades), Some (mkCard R4 Spades), Some (mkCard R5 Spades),
           Some (mkCard R9 Diamonds), Some (mkCard RK Clubs)]) = Inr ''Straight Flush''
   \<and> (\<exists>res'. evaluateHand [Some (mkCard R2 Spades), Some (mkCard R2 Hearts)]
           [Some (mkCard R2 Diamonds), Some (mkCard R2 Clubs), Some (mkCard R3 Spades),
            Some (mkCard R4 Hearts), Some (mkCard R5 Diamonds)] = Inr res'
         \<and> score res' < 905)"
proof -
  let ?h = "[mkCard RA Spades, mkCard R2 Spades]"
  let ?c = "[mkCard R3 Spades, mkCard R4 Spades, mkCard R5 Spades, mkCard R9 Diamonds,
             mkCard RK Clubs]"
  let ?h' = "[mkCard R2 Spades, mkCard R2 Hearts]"
  let ?c' = "[mkCard R2 Diamonds, mkCard R2 Clubs, mkCard R3 Spades, mkCard R4 Hearts,
              mkCard R5 Diamonds]"
  let ?res = "\<lparr>score = 905, name = ''Straight Flush'', tieBreaker = None\<rparr>"
  have wf: "list_all wellFormed (?h @ ?c)"
    by code_simp
  have ev: "evaluateHand (map Some ?h) (map Some ?c) = Inr ?res"
    by code_simp
  have nm: "name ?res = ''Straight Flush''"
    by simp
  have q: "sevenCards (?h' @ ?c')" "realizesFourOfAKind (?h' @ ?c')"
    by code_simp+
  from named_straight_flush_beats_four_of_a_kind [OF wf ev nm q] wf ev show ?thesis
    by simp
qed

section \<open>The seat that nextTurn moves to\<close>

text \<open>
  Whenever the scan of \<open>nextTurn\<close> finds a seat, the turn moves to it, and the first
  player on that seat is active with chips left.
\<close>

lemma scanSeats_eligible:
  "scanSeats ps k n = Some idx \<Longrightarrow>
   \<exists>p. find (\<lambda>pl. seatIndex pl = idx) ps = Some p \<and> status p = Active \<and> 0 < chips p"
  by (induction ps k n rule: scanSeats.induct) (auto split: option.splits if_splits)

theorem nextTurn_moves_to_eligible_seat:
  assumes "gameStatus room = Playing"
    and "scanSeats (players room) (jsRem (currentTurnIndex room + 1) 9) 9 = Some idx"
  shows "nextTurn room = Inr (room\<lparr>currentTurnIndex := idx\<rparr>)
         \<and> (\<exists>p. find (\<lambda>pl. seatIndex pl = idx) (players room) = Some p
                \<and> status p = Active \<and> 0 < chips p)"
  using assms scanSeats_eligible [OF assms(2)]
  by (subst nextTurn.simps) simp

theorem nextTurn_moves_to_eligible_seat_witness:
  "gameStatus preflopTable = Playing
   \<and> scanSeats (players preflopTable) (jsRem (currentTurnIndex preflopTable + 1) 9) 9 = Some 1
   \<and> nextTurn preflopTable = Inr (preflopTable\<lparr>currentTurnIndex := 1\<rparr>)
   \<and> (\<exists>p. find (\<lambda>pl. seatIndex pl = 1) (players preflopTable) = Some p
          \<and> status p = Active \<and> 0 < chips p)"
proof -
  have a: "gameStatus preflopTable = Playing"
    "scanSeats (players preflopTable) (jsRem (currentTurnIndex preflopTable + 1) 9) 9 = Some 1"
    by code_simp+
  from nextTurn_moves_to_eligible_seat [OF a] a show ?thesis
    by simp
qed

end
